theory Spec2Isabelle
  imports Complex_Main "HOL-Library.AList" "HOL-Library.Char_ord" "HOL-Library.List_Lexorder"
    "HOL-Library.Word"
begin

section \<open>The message tag registry of MessageTagsManager.h\<close>

text \<open>
  The development embeds the tag node (\<open>FMessageTagNode\<close>) and the tag manager
  (\<open>UMessageTagsManager\<close>) of \<^verbatim>\<open>MessageTagsManager.h\<close>. The header holds the bodies of
  the default constructor of the node, of the node accessors, of the two lookups
  (\<open>FindTagNode\<close>, \<open>GetSingleTagContainer\<close>), of \<open>VerifyNetworkIndex\<close>,
  \<open>InvalidateNetworkIndex\<close> and of the five cached-index accessors; these are translated
  from the code. The header only declares the six-argument constructor of the node,
  \<open>SplitMessageTagFName\<close>, \<open>AddTagTableRow\<close>, \<open>InsertTagIntoNodeArray\<close>,
  \<open>MarkChildrenOfNodeConflict\<close>, \<open>DestroyMessageTagTree\<close>, \<open>ConstructNetIndex\<close>,
  \<open>GetTagNameFromNetIndex\<close>, \<open>GetNetIndexFromTag\<close>, \<open>IsValidMessageTagString\<close> and
  \<open>RequestMessageTagParents\<close>; each of those is modelled from the specification and its
  definition says so.
\<close>

subsection \<open>Names, build configuration and external collaborators\<close>

text \<open>An \<open>FName\<close> is an interned string; an \<open>FMessageTag\<close> wraps the name of the tag.\<close>

type_synonym FName = string
type_synonym FMessageTag = FName

definition NAME_None :: FName where
  "NAME_None = ''None''"

text \<open>
  What the header uses but does not define is a parameter: the preprocessor switches
  \<open>WITH_EDITOR\<close> and \<open>WITH_EDITORONLY_DATA\<close>, the switch \<open>DO_CHECK\<close> that compiles the
  assertion macro \<open>check\<close> in or out, the global \<open>GIsEditor\<close>, the constant
  \<open>INVALID_TAGNETINDEX\<close>, \<open>FMessageTag::IsValid\<close>, the redirector behind
  \<open>RedirectSingleMessageTag\<close> (it rewrites the tag it is handed), the hash function of
  the index table and the configured length of the first bit segment.
\<close>

record Env =
  WITH_EDITOR :: bool
  WITH_EDITORONLY_DATA :: bool
  DO_CHECK :: bool
  GIsEditor :: bool
  INVALID_TAGNETINDEX :: nat
  TagIsValid :: "FMessageTag \<Rightarrow> bool"
  RedirectSingleMessageTag :: "FMessageTag \<Rightarrow> FMessageTag"
  IndexTableHash :: "(nat \<times> FName) list \<Rightarrow> 32 word"
  FirstBitSegmentSetting :: nat

subsection \<open>Tag containers, table rows and tag nodes\<close>

text \<open>
  \<open>FMessageTagContainer\<close>: the explicit tags and their parents (the header's comment on
  \<open>CompleteTagWithParents\<close> names the two arrays).
\<close>

record FMessageTagContainer =
  MessageTags :: "FMessageTag list"
  ParentTags :: "FMessageTag list"

record FMessageTagTableRow =
  RowTag :: FName
  RowDevComment :: string

text \<open>
  \<open>FMessageTagNode\<close>. A shared pointer to a node is the full name of the node, the key of
  the node in \<open>MessageTagNodeMap\<close>; the parent pointer of a top-level node designates the
  root, which is \<open>None\<close> here. The editor-only fields are always part of the record and
  the accessors consult the build switch.
\<close>

record FMessageTagNode =
  Tag :: FName
  CompleteTagWithParents :: FMessageTagContainer
  ParentNode :: "FName option"
  NetIndex :: nat
  SourceName :: FName
  DevComment :: string
  bIsRestrictedTag :: bool
  bAllowNonRestrictedChildren :: bool
  bIsExplicitTag :: bool
  bDescendantHasConflict :: bool
  bNodeHasConflict :: bool
  bAncestorHasConflict :: bool



definition GetSingleTagContainerOfNode :: "FMessageTagNode \<Rightarrow> FMessageTagContainer" where
  "GetSingleTagContainerOfNode n = CompleteTagWithParents n"

definition GetCompleteTag :: "FMessageTagNode \<Rightarrow> FMessageTag" where
  "GetCompleteTag n =
     (case MessageTags (CompleteTagWithParents n) of [] \<Rightarrow> NAME_None | t # _ \<Rightarrow> t)"

definition GetCompleteTagName :: "FMessageTagNode \<Rightarrow> FName" where
  "GetCompleteTagName n = GetCompleteTag n"

definition GetSimpleTagName :: "FMessageTagNode \<Rightarrow> FName" where
  "GetSimpleTagName n = Tag n"

definition GetParentTagNode :: "FMessageTagNode \<Rightarrow> FName option" where
  "GetParentTagNode n = ParentNode n"


definition IsExplicitTag :: "Env \<Rightarrow> FMessageTagNode \<Rightarrow> bool" where
  "IsExplicitTag env n = (if WITH_EDITORONLY_DATA env then bIsExplicitTag n else True)"

definition GetAllowNonRestrictedChildren :: "Env \<Rightarrow> FMessageTagNode \<Rightarrow> bool" where
  "GetAllowNonRestrictedChildren env n =
     (if WITH_EDITORONLY_DATA env then bAllowNonRestrictedChildren n else True)"

definition IsRestrictedMessageTag :: "Env \<Rightarrow> FMessageTagNode \<Rightarrow> bool" where
  "IsRestrictedMessageTag env n = (if WITH_EDITORONLY_DATA env then bIsRestrictedTag n else True)"

definition GetComment :: "Env \<Rightarrow> FMessageTagNode \<Rightarrow> string" where
  "GetComment env n = (if WITH_EDITORONLY_DATA env then DevComment n else [])"

subsection \<open>The manager and the lookups of the header\<close>

text \<open>
  \<open>UMessageTagsManager\<close>, the fields the tag tree and the network index use. The map of
  tags to nodes is an association list in insertion order. The index table holds node
  pointers, that is full tag names. The three cached numbers are non-negative.
\<close>

record UMessageTagsManager =
  MessageTagNodeMap :: "(FMessageTag \<times> FMessageTagNode) list"
  CommonlyReplicatedTags :: "FMessageTag list"
  InvalidTagCharacters :: string
  NetworkMessageTagNodeIndex :: "FName list"
  NetworkMessageTagNodeIndexHash :: "32 word"
  NetIndexTrueBitNum :: nat
  NetIndexFirstBitSegment :: nat
  InvalidTagNetIndex :: nat
  bNetworkIndexInvalidated :: bool

text \<open>
  The calls a lookup makes, in order: a find in \<open>MessageTagNodeMap\<close> and the hand-over of
  the tag to the redirector.
\<close>

datatype LookupStep = MapFind FMessageTag | Redirect FMessageTag

text \<open>
  \<open>FindTagNode(const FMessageTag&)\<close> with the calls it makes. The second find is under
  \<open>#if WITH_EDITOR\<close> and \<open>if (GIsEditor && MessageTag.IsValid())\<close>; a null pointer is
  \<open>None\<close>.
\<close>

definition FindTagNodeSteps ::
  "Env \<Rightarrow> UMessageTagsManager \<Rightarrow> FMessageTag \<Rightarrow> FMessageTagNode option \<times> LookupStep list" where
  "FindTagNodeSteps env mgr MessageTag =
     (case map_of (MessageTagNodeMap mgr) MessageTag of
        Some Node \<Rightarrow> (Some Node, [MapFind MessageTag])
      | None \<Rightarrow>
          if WITH_EDITOR env \<and> GIsEditor env \<and> TagIsValid env MessageTag then
            (let RedirectedTag = RedirectSingleMessageTag env MessageTag in
               (case map_of (MessageTagNodeMap mgr) RedirectedTag of
                  Some Node \<Rightarrow> (Some Node, [MapFind MessageTag, Redirect MessageTag, MapFind RedirectedTag])
                | None \<Rightarrow> (None, [MapFind MessageTag, Redirect MessageTag, MapFind RedirectedTag])))
          else (None, [MapFind MessageTag]))"

definition FindTagNode :: "Env \<Rightarrow> UMessageTagsManager \<Rightarrow> FMessageTag \<Rightarrow> FMessageTagNode option" where
  "FindTagNode env mgr MessageTag = fst (FindTagNodeSteps env mgr MessageTag)"

text \<open>\<open>GetSingleTagContainer(const FMessageTag&)\<close> of the manager, the same way.\<close>

definition GetSingleTagContainerSteps ::
  "Env \<Rightarrow> UMessageTagsManager \<Rightarrow> FMessageTag \<Rightarrow> FMessageTagContainer option \<times> LookupStep list" where
  "GetSingleTagContainerSteps env mgr MessageTag =
     (case map_of (MessageTagNodeMap mgr) MessageTag of
        Some Node \<Rightarrow> (Some (GetSingleTagContainerOfNode Node), [MapFind MessageTag])
      | None \<Rightarrow>
          if WITH_EDITOR env \<and> GIsEditor env \<and> TagIsValid env MessageTag then
            (let RedirectedTag = RedirectSingleMessageTag env MessageTag in
               (case map_of (MessageTagNodeMap mgr) RedirectedTag of
                  Some Node \<Rightarrow> (Some (GetSingleTagContainerOfNode Node),
                                 [MapFind MessageTag, Redirect MessageTag, MapFind RedirectedTag])
                | None \<Rightarrow> (None, [MapFind MessageTag, Redirect MessageTag, MapFind RedirectedTag])))
          else (None, [MapFind MessageTag]))"

definition GetSingleTagContainer ::
  "Env \<Rightarrow> UMessageTagsManager \<Rightarrow> FMessageTag \<Rightarrow> FMessageTagContainer option" where
  "GetSingleTagContainer env mgr MessageTag = fst (GetSingleTagContainerSteps env mgr MessageTag)"

subsection \<open>Tag strings\<close>

text \<open>
  \<open>SplitMessageTagFName\<close> (declared: "splits a tag such as x.y.z into an array of names
  {x,y,z}"). Modelled from the spec: the body is not in the header; the tag is cut at
  every dot.
\<close>

fun SplitMessageTagFName :: "FName \<Rightarrow> FName list" where
  "SplitMessageTagFName [] = [[]]"
| "SplitMessageTagFName (c # cs) =
     (if c = CHR ''.'' then [] # SplitMessageTagFName cs
      else (case SplitMessageTagFName cs of
              [] \<Rightarrow> [[c]]
            | w # ws \<Rightarrow> (c # w) # ws))"

text \<open>
  The full name of a node under a parent: "fullPath equals parent.fullPath + "." +
  segment (empty prefix at depth 1)".
\<close>

definition FullTagOf :: "FName option \<Rightarrow> FName \<Rightarrow> FName" where
  "FullTagOf Parent Seg = (case Parent of None \<Rightarrow> Seg | Some p \<Rightarrow> p @ ''.'' @ Seg)"

text \<open>
  The strict ancestors of a tag name, most specific first: the part of the name before
  each of its dots, the longest first. \<open>DotPrefixes pre s\<close> reads \<open>s\<close> after \<open>pre\<close>.
\<close>

fun DotPrefixes :: "string \<Rightarrow> string \<Rightarrow> FName list" where
  "DotPrefixes pre [] = []"
| "DotPrefixes pre (c # cs) =
     (if c = CHR ''.'' then DotPrefixes (pre @ [c]) cs @ [pre] else DotPrefixes (pre @ [c]) cs)"

definition TagAncestors :: "FName \<Rightarrow> FName list" where
  "TagAncestors t = DotPrefixes [] t"

text \<open>
  \<open>IsValidMessageTagString\<close>. Modelled from the spec: the body is not in the header. "A
  path is valid iff every segment is non-empty, contains none of a configured
  invalid-character set, and segments are separated by single dots with no leading/
  trailing dot."
\<close>

definition IsValidMessageTagString :: "UMessageTagsManager \<Rightarrow> string \<Rightarrow> bool" where
  "IsValidMessageTagString mgr TagString =
     list_all (\<lambda>seg. seg \<noteq> [] \<and> list_all (\<lambda>c. c \<notin> set (InvalidTagCharacters mgr)) seg)
       (SplitMessageTagFName TagString)"

subsection \<open>The tag tree\<close>

text \<open>
  The node constructor \<open>FMessageTagNode(InTag, InFullTag, InParentNode, InIsExplicitTag,
  InIsRestrictedTag, InAllowNonRestrictedChildren)\<close>. Modelled from the spec: the body is
  not in the header. The container holds the full tag ("this complete tag is at
  MessageTags[0], with parents in ParentTags[]") and, under a parent that is not the
  root, the parent's tag followed by the parent's parents; "netIndex: assigned lazily,
  invalid (sentinel) until the index is (re)built"; no source ("if None, this is an
  implicitly added tag"), no comment and no conflict flag yet.
\<close>

definition NewTagNode ::
  "Env \<Rightarrow> (FMessageTag \<times> FMessageTagNode) list \<Rightarrow> FName \<Rightarrow> FName \<Rightarrow> FName option
     \<Rightarrow> bool \<Rightarrow> bool \<Rightarrow> bool \<Rightarrow> FMessageTagNode" where
  "NewTagNode env m InTag InFullTag InParentNode InIsExplicitTag InIsRestrictedTag
      InAllowNonRestrictedChildren =
     \<lparr> Tag = InTag,
       CompleteTagWithParents =
         \<lparr> MessageTags = [InFullTag],
           ParentTags =
             (case InParentNode of
                None \<Rightarrow> []
              | Some p \<Rightarrow>
                  (case map_of m p of
                     None \<Rightarrow> []
                   | Some pn \<Rightarrow> GetCompleteTag pn # ParentTags (GetSingleTagContainerOfNode pn))) \<rparr>,
       ParentNode = InParentNode,
       NetIndex = INVALID_TAGNETINDEX env,
       SourceName = NAME_None,
       DevComment = [],
       bIsRestrictedTag = InIsRestrictedTag,
       bAllowNonRestrictedChildren = InAllowNonRestrictedChildren,
       bIsExplicitTag = InIsExplicitTag,
       bDescendantHasConflict = False,
       bNodeHasConflict = False,
       bAncestorHasConflict = False \<rparr>"

text \<open>
  Conflict propagation. Modelled from the spec (4.4): the bodies are not in the header.
  "Set N.hasConflict; walk ancestors of N setting descendantHasConflict (stop early if
  already set, since propagation is idempotent upward); walk descendants of N setting
  ancestorHasConflict". The ancestors of a node are the parents its container lists. For
  the descendants the header's comment on \<open>MarkChildrenOfNodeConflict\<close> decides: it
  "marks all of the nodes that descend from CurNode"; these are the nodes whose
  container lists \<open>CurNode\<close> among the parents.
\<close>

fun MarkAncestorsOfNodeConflict ::
  "FName list \<Rightarrow> (FMessageTag \<times> FMessageTagNode) list \<Rightarrow> (FMessageTag \<times> FMessageTagNode) list" where
  "MarkAncestorsOfNodeConflict [] m = m"
| "MarkAncestorsOfNodeConflict (a # as) m =
     (case map_of m a of
        None \<Rightarrow> m
      | Some n \<Rightarrow>
          if bDescendantHasConflict n then m
          else MarkAncestorsOfNodeConflict as
                 (AList.map_entry a (\<lambda>n. n\<lparr>bDescendantHasConflict := True\<rparr>) m))"

definition MarkChildrenOfNodeConflict ::
  "FName \<Rightarrow> (FMessageTag \<times> FMessageTagNode) list \<Rightarrow> (FMessageTag \<times> FMessageTagNode) list" where
  "MarkChildrenOfNodeConflict CurNode m =
     map (\<lambda>(k, n). if CurNode \<in> set (ParentTags (CompleteTagWithParents n))
                   then (k, n\<lparr>bAncestorHasConflict := True\<rparr>) else (k, n)) m"

definition MarkNodeConflict ::
  "FName \<Rightarrow> (FMessageTag \<times> FMessageTagNode) list \<Rightarrow> (FMessageTag \<times> FMessageTagNode) list" where
  "MarkNodeConflict N m =
     (case map_of m N of
        None \<Rightarrow> m
      | Some n \<Rightarrow>
          MarkChildrenOfNodeConflict N
            (MarkAncestorsOfNodeConflict (ParentTags (CompleteTagWithParents n))
               (AList.map_entry N (\<lambda>n. n\<lparr>bNodeHasConflict := True\<rparr>) m)))"

text \<open>
  A declaration breaks the restriction policy of its parent: "restricted-tag children
  must themselves be restricted unless the node's allowsNonRestrictedChildren is true".
\<close>

definition RestrictionConflict ::
  "(FMessageTag \<times> FMessageTagNode) list \<Rightarrow> FName option \<Rightarrow> bool \<Rightarrow> bool" where
  "RestrictionConflict m Parent bIsRestricted =
     (case Parent of
        None \<Rightarrow> False
      | Some p \<Rightarrow>
          (case map_of m p of
             None \<Rightarrow> False
           | Some pn \<Rightarrow> bIsRestrictedTag pn \<and> \<not> bAllowNonRestrictedChildren pn \<and> \<not> bIsRestricted))"

text \<open>
  \<open>InsertTagIntoNodeArray\<close>. Modelled from the spec (4.1): the body is not in the header.
  The node array of the parent is searched through the map of full tags ("fullPath
  uniquely identifies a node"). "If the terminal node already exists: if previously
  implicit and now declared explicitly, promote it (mark explicit, record
  source/comment), not a conflict; if already explicit from a different source, or
  declared with incompatible restriction flags, mark hasConflict on the node and
  propagate." The restriction flags a declaration is incompatible with are those of the
  node. An implied node that already exists is left alone. A missing node is created
  ("if the tag already exists, no insertion will occur"), with the source and the
  comment of the row when it is declared explicitly; the created node of a declaration
  that breaks the restriction policy of its parent is marked in conflict (the scenario
  of A.B restricted without non-restricted children and A.B.C not restricted: "expect
  hasConflict on node A.B.C").
\<close>

definition InsertTagIntoNodeArray ::
  "Env \<Rightarrow> FName \<Rightarrow> FName \<Rightarrow> FName option \<Rightarrow> FName \<Rightarrow> FMessageTagTableRow \<Rightarrow> bool \<Rightarrow> bool \<Rightarrow> bool
     \<Rightarrow> (FMessageTag \<times> FMessageTagNode) list \<Rightarrow> (FMessageTag \<times> FMessageTagNode) list" where
  "InsertTagIntoNodeArray env InTag FullTag Parent Src TagRow bExplicit bRestricted bAllow m =
     (case map_of m FullTag of
        None \<Rightarrow>
          (let n0 = NewTagNode env m InTag FullTag Parent bExplicit bRestricted bAllow;
               n1 = (if bExplicit then n0\<lparr>SourceName := Src, DevComment := RowDevComment TagRow\<rparr>
                     else n0);
               m1 = m @ [(FullTag, n1)]
           in if bExplicit \<and> RestrictionConflict m Parent bRestricted
              then MarkNodeConflict FullTag m1 else m1)
      | Some n \<Rightarrow>
          if \<not> bExplicit then m
          else if \<not> bIsExplicitTag n then
            AList.map_entry FullTag
              (\<lambda>n. n\<lparr>bIsExplicitTag := True, SourceName := Src,
                      DevComment := RowDevComment TagRow\<rparr>) m
          else if SourceName n \<noteq> Src \<or> bIsRestrictedTag n \<noteq> bRestricted
                  \<or> bAllowNonRestrictedChildren n \<noteq> bAllow
            then MarkNodeConflict FullTag m
            else m)"

text \<open>
  The walk of \<open>AddTagTableRow\<close> over the segments: "walks/creates nodes segment-by-segment
  from the root, creating implicit intermediate nodes as needed"; the last segment is
  the explicit one.
\<close>

fun InsertSubTags ::
  "Env \<Rightarrow> FMessageTagTableRow \<Rightarrow> FName \<Rightarrow> bool \<Rightarrow> bool \<Rightarrow> FName option \<Rightarrow> FName list
     \<Rightarrow> (FMessageTag \<times> FMessageTagNode) list \<Rightarrow> (FMessageTag \<times> FMessageTagNode) list" where
  "InsertSubTags env TagRow Src bRestricted bAllow Parent [] m = m"
| "InsertSubTags env TagRow Src bRestricted bAllow Parent (Seg # Rest) m =
     InsertSubTags env TagRow Src bRestricted bAllow (Some (FullTagOf Parent Seg)) Rest
       (InsertTagIntoNodeArray env Seg (FullTagOf Parent Seg) Parent Src TagRow (Rest = [])
          bRestricted bAllow m)"

text \<open>\<open>void InvalidateNetworkIndex() { bNetworkIndexInvalidated = true; }\<close>\<close>

definition InvalidateNetworkIndex :: "UMessageTagsManager \<Rightarrow> UMessageTagsManager" where
  "InvalidateNetworkIndex mgr = mgr\<lparr>bNetworkIndexInvalidated := True\<rparr>"

text \<open>
  \<open>AddTagTableRow\<close>. Modelled from the spec (4.1, 7): the body is not in the header. A
  malformed row is skipped; a well-formed one is inserted and the insertion
  "invalidates the network index".
\<close>

definition AddTagTableRow ::
  "Env \<Rightarrow> FMessageTagTableRow \<Rightarrow> FName \<Rightarrow> bool \<Rightarrow> bool \<Rightarrow> UMessageTagsManager
     \<Rightarrow> UMessageTagsManager" where
  "AddTagTableRow env TagRow Src bIsRestrictedTag' bAllowNonRestrictedChildren' mgr =
     (if IsValidMessageTagString mgr (RowTag TagRow) then
        InvalidateNetworkIndex
          (mgr\<lparr>MessageTagNodeMap :=
                 InsertSubTags env TagRow Src bIsRestrictedTag' bAllowNonRestrictedChildren' None
                   (SplitMessageTagFName (RowTag TagRow)) (MessageTagNodeMap mgr)\<rparr>)
      else mgr)"

text \<open>
  \<open>DestroyMessageTagTree\<close>. Modelled from the spec (4.1, "Remove-all / Reconstruct"):
  the body is not in the header. It "clears the entire tree and index".
\<close>

definition DestroyMessageTagTree :: "UMessageTagsManager \<Rightarrow> UMessageTagsManager" where
  "DestroyMessageTagTree mgr =
     mgr\<lparr>MessageTagNodeMap := [], NetworkMessageTagNodeIndex := [],
          bNetworkIndexInvalidated := True\<rparr>"

text \<open>
  \<open>RequestMessageTagParents\<close>. Modelled from the spec (4.2): the body is not in the
  header. "The tag itself plus every strict ancestor, most-specific first", "added
  explicitly" says the header; the tags are those of the node's stored container.
\<close>

definition RequestMessageTagParents ::
  "Env \<Rightarrow> UMessageTagsManager \<Rightarrow> FMessageTag \<Rightarrow> FMessageTagContainer" where
  "RequestMessageTagParents env mgr MessageTag =
     (case GetSingleTagContainer env mgr MessageTag of
        None \<Rightarrow> \<lparr>MessageTags = [], ParentTags = []\<rparr>
      | Some c \<Rightarrow> \<lparr>MessageTags = MessageTags c @ ParentTags c, ParentTags = []\<rparr>)"

subsection \<open>The network index\<close>

text \<open>
  The number of bits that tell \<open>n\<close> values apart, \<open>ceil(log2 n)\<close>: the least \<open>b\<close> with
  \<open>n \<le> 2 ^ b\<close>, by halving.
\<close>

fun CeilLogTwo :: "nat \<Rightarrow> nat" where
  "CeilLogTwo 0 = 0"
| "CeilLogTwo (Suc 0) = 0"
| "CeilLogTwo (Suc (Suc n)) = Suc (CeilLogTwo ((n + 3) div 2))"

declare CeilLogTwo.simps(3) [simp del]

text \<open>The loop that gives the node at position \<open>i\<close> of the table the index \<open>i\<close>.\<close>

fun AssignNetIndices ::
  "nat \<Rightarrow> FName list \<Rightarrow> (FMessageTag \<times> FMessageTagNode) list \<Rightarrow> (FMessageTag \<times> FMessageTagNode) list" where
  "AssignNetIndices i [] m = m"
| "AssignNetIndices i (t # ts) m =
     AssignNetIndices (Suc i) ts (AList.map_entry t (\<lambda>n. n\<lparr>NetIndex := i\<rparr>) m)"

text \<open>
  \<open>ConstructNetIndex\<close>. Modelled from the spec (4.3): the body is not in the header.
  "1. Collect all non-root nodes. 2. Partition into commonly replicated and the rest.
  3. Within each partition, sort by full path string ascending. 4. Concatenate:
  commonly-replicated partition first, then the rest; assign sequential integer indices
  starting at 0. 5. invalidIndex := count (one past the last valid index). 6. bitWidth
  := ceil(log2(count + 1)), clamped so the representable range covers invalidIndex; a
  first-segment bit-length is derived (configurable split point). 7. Compute a stable
  hash over the ordered (index, full path) sequence." The rebuild marks the index valid
  ("check invalidated, rebuild, mark valid"). A width of \<open>b\<close> bits represents
  \<open>0 .. 2 ^ b - 1\<close>, so it covers \<open>v\<close> when \<open>b\<close> is at least \<open>CeilLogTwo (v + 1)\<close>.
\<close>

definition ConstructNetIndex :: "Env \<Rightarrow> UMessageTagsManager \<Rightarrow> UMessageTagsManager" where
  "ConstructNetIndex env mgr =
     (let AllTags = map fst (MessageTagNodeMap mgr);
          Common = sort (filter (\<lambda>t. t \<in> set (CommonlyReplicatedTags mgr)) AllTags);
          Others = sort (filter (\<lambda>t. t \<notin> set (CommonlyReplicatedTags mgr)) AllTags);
          Table = Common @ Others;
          Count = length Table;
          Invalid = Count;
          Bits = max (CeilLogTwo (Count + 1)) (CeilLogTwo (Invalid + 1))
      in mgr\<lparr>MessageTagNodeMap := AssignNetIndices 0 Table (MessageTagNodeMap mgr),
              NetworkMessageTagNodeIndex := Table,
              InvalidTagNetIndex := Invalid,
              NetIndexTrueBitNum := Bits,
              NetIndexFirstBitSegment := min (FirstBitSegmentSetting env) Bits,
              NetworkMessageTagNodeIndexHash := IndexTableHash env (zip [0..<Count] Table),
              bNetworkIndexInvalidated := False\<rparr>)"

text \<open>
  \<open>VerifyNetworkIndex\<close>: \<open>if (bNetworkIndexInvalidated) ConstructNetIndex();\<close> and the
  five accessors of the header, each \<open>{ VerifyNetworkIndex(); return Field; }\<close>. An
  accessor returns the value and the manager it leaves.
\<close>

definition VerifyNetworkIndex :: "Env \<Rightarrow> UMessageTagsManager \<Rightarrow> UMessageTagsManager" where
  "VerifyNetworkIndex env mgr =
     (if bNetworkIndexInvalidated mgr then ConstructNetIndex env mgr else mgr)"

definition GetNetworkMessageTagNodeIndexHash ::
  "Env \<Rightarrow> UMessageTagsManager \<Rightarrow> 32 word \<times> UMessageTagsManager" where
  "GetNetworkMessageTagNodeIndexHash env mgr =
     (let mgr' = VerifyNetworkIndex env mgr in (NetworkMessageTagNodeIndexHash mgr', mgr'))"

definition GetNetIndexTrueBitNum :: "Env \<Rightarrow> UMessageTagsManager \<Rightarrow> nat \<times> UMessageTagsManager" where
  "GetNetIndexTrueBitNum env mgr =
     (let mgr' = VerifyNetworkIndex env mgr in (NetIndexTrueBitNum mgr', mgr'))"

definition GetNetIndexFirstBitSegment :: "Env \<Rightarrow> UMessageTagsManager \<Rightarrow> nat \<times> UMessageTagsManager" where
  "GetNetIndexFirstBitSegment env mgr =
     (let mgr' = VerifyNetworkIndex env mgr in (NetIndexFirstBitSegment mgr', mgr'))"

definition GetInvalidTagNetIndex :: "Env \<Rightarrow> UMessageTagsManager \<Rightarrow> nat \<times> UMessageTagsManager" where
  "GetInvalidTagNetIndex env mgr =
     (let mgr' = VerifyNetworkIndex env mgr in (InvalidTagNetIndex mgr', mgr'))"

definition GetNetworkMessageTagNodeIndex ::
  "Env \<Rightarrow> UMessageTagsManager \<Rightarrow> FName list \<times> UMessageTagsManager" where
  "GetNetworkMessageTagNodeIndex env mgr =
     (let mgr' = VerifyNetworkIndex env mgr in (NetworkMessageTagNodeIndex mgr', mgr'))"

text \<open>
  \<open>GetTagNameFromNetIndex\<close> and \<open>GetNetIndexFromTag\<close>. Modelled from the spec (6): the
  bodies are not in the header. "indexToTag(integer) \<rightarrow> tag?" reads the table and has
  no tag outside of it; "tagToIndex(tag) \<rightarrow> integer" is the index of the tag's node and
  the invalid index for a tag without a node. Both rebuild an invalidated index first.
\<close>

definition GetTagNameFromNetIndex ::
  "Env \<Rightarrow> UMessageTagsManager \<Rightarrow> nat \<Rightarrow> FName option \<times> UMessageTagsManager" where
  "GetTagNameFromNetIndex env mgr Index =
     (let mgr' = VerifyNetworkIndex env mgr in
        (if Index < length (NetworkMessageTagNodeIndex mgr')
         then Some (NetworkMessageTagNodeIndex mgr' ! Index) else None, mgr'))"

definition GetNetIndexFromTag ::
  "Env \<Rightarrow> UMessageTagsManager \<Rightarrow> FMessageTag \<Rightarrow> nat \<times> UMessageTagsManager" where
  "GetNetIndexFromTag env mgr InTag =
     (let mgr' = VerifyNetworkIndex env mgr in
        (case FindTagNode env mgr' InTag of
           Some n \<Rightarrow> NetIndex n
         | None \<Rightarrow> InvalidTagNetIndex mgr', mgr'))"

subsection \<open>Histories of a registry\<close>

text \<open>
  A registry starts empty with its configuration (the commonly replicated tags and the
  invalid characters) and \<open>bNetworkIndexInvalidated = true\<close>, as the header initialises
  the flag. What happens to it afterwards is a list of operations: rows added, the tree
  destroyed, the network index read through an accessor.
\<close>

definition InitialManager :: "FMessageTag list \<Rightarrow> string \<Rightarrow> UMessageTagsManager" where
  "InitialManager Common InvalidChars =
     \<lparr> MessageTagNodeMap = [],
       CommonlyReplicatedTags = Common,
       InvalidTagCharacters = InvalidChars,
       NetworkMessageTagNodeIndex = [],
       NetworkMessageTagNodeIndexHash = 0,
       NetIndexTrueBitNum = 0,
       NetIndexFirstBitSegment = 0,
       InvalidTagNetIndex = 0,
       bNetworkIndexInvalidated = True \<rparr>"

datatype Op =
    OpAddTagTableRow FMessageTagTableRow FName bool bool
  | OpDestroyMessageTagTree
  | OpReadNetIndex

fun ApplyOp :: "Env \<Rightarrow> UMessageTagsManager \<Rightarrow> Op \<Rightarrow> UMessageTagsManager" where
  "ApplyOp env mgr (OpAddTagTableRow TagRow Src r a) = AddTagTableRow env TagRow Src r a mgr"
| "ApplyOp env mgr OpDestroyMessageTagTree = DestroyMessageTagTree mgr"
| "ApplyOp env mgr OpReadNetIndex = VerifyNetworkIndex env mgr"

definition RunOps :: "Env \<Rightarrow> UMessageTagsManager \<Rightarrow> Op list \<Rightarrow> UMessageTagsManager" where
  "RunOps env mgr ops = foldl (ApplyOp env) mgr ops"

subsection \<open>Notions used in the proofs and sample registries\<close>

text \<open>
  Two stores are related by \<open>R\<close> when every node of the first is still in the second,
  under the same tag, and \<open>R\<close> relates the two versions of the node. A relation on nodes
  is kept by the tree operations when it is reflexive and transitive and holds across
  each single update the insertion of a row makes to an existing node: the three
  conflict flags and the promotion of an implied node.
\<close>

definition StoreRel ::
  "(FMessageTagNode \<Rightarrow> FMessageTagNode \<Rightarrow> bool) \<Rightarrow> (FMessageTag \<times> FMessageTagNode) list
     \<Rightarrow> (FMessageTag \<times> FMessageTagNode) list \<Rightarrow> bool" where
  "StoreRel R m m' = (\<forall>k n. map_of m k = Some n \<longrightarrow> (\<exists>n'. map_of m' k = Some n' \<and> R n n'))"

definition TreeStable :: "(FMessageTagNode \<Rightarrow> FMessageTagNode \<Rightarrow> bool) \<Rightarrow> bool" where
  "TreeStable R =
     ((\<forall>n. R n n) \<and> (\<forall>a b c. R a b \<longrightarrow> R b c \<longrightarrow> R a c)
      \<and> (\<forall>n. R n (n\<lparr>bDescendantHasConflict := True\<rparr>))
      \<and> (\<forall>n. R n (n\<lparr>bAncestorHasConflict := True\<rparr>))
      \<and> (\<forall>n. R n (n\<lparr>bNodeHasConflict := True\<rparr>))
      \<and> (\<forall>n s c. \<not> bIsExplicitTag n
             \<longrightarrow> R n (n\<lparr>bIsExplicitTag := True, SourceName := s, DevComment := c\<rparr>)))"

text \<open>The position of a tag in the index table.\<close>

fun IndexInTable :: "FName \<Rightarrow> FName list \<Rightarrow> nat" where
  "IndexInTable t [] = 0"
| "IndexInTable t (x # xs) = (if x = t then 0 else Suc (IndexInTable t xs))"

text \<open>
  An editor build with a redirector that knows one old name, a row without comment, the
  registry of the spec's scenario (three weapon tags from one source, one of them
  commonly replicated) and a registry with the same tags, added in another order with
  rebuilds in between.
\<close>

definition SampleEnv :: Env where
  "SampleEnv =
     \<lparr> WITH_EDITOR = True, WITH_EDITORONLY_DATA = True, DO_CHECK = True, GIsEditor = True,
       INVALID_TAGNETINDEX = 65535, TagIsValid = (\<lambda>t. t \<noteq> NAME_None),
       RedirectSingleMessageTag = (\<lambda>t. if t = ''Old.Name'' then ''A.B'' else t),
       IndexTableHash = (\<lambda>xs. of_nat (length xs)),
       FirstBitSegmentSetting = 6 \<rparr>"

definition SampleRow :: "FName \<Rightarrow> FMessageTagTableRow" where
  "SampleRow t = \<lparr>RowTag = t, RowDevComment = []\<rparr>"

definition SampleManager :: UMessageTagsManager where
  "SampleManager =
     RunOps SampleEnv (InitialManager [''Weapon.Sword''] '' ,'')
       [OpAddTagTableRow (SampleRow ''Weapon.Gun'') ''S1'' False True,
        OpAddTagTableRow (SampleRow ''Weapon.Gun.Rifle'') ''S1'' False True,
        OpAddTagTableRow (SampleRow ''Weapon.Sword'') ''S1'' False True]"

definition ReorderedManager :: UMessageTagsManager where
  "ReorderedManager =
     RunOps SampleEnv (InitialManager [''Weapon.Sword''] ''#'')
       [OpAddTagTableRow (SampleRow ''Weapon.Sword'') ''S2'' True False,
        OpReadNetIndex,
        OpAddTagTableRow (SampleRow ''Weapon.Gun.Rifle'') ''S1'' False True,
        OpAddTagTableRow (SampleRow ''Weapon.Gun'') ''S2'' False True,
        OpReadNetIndex,
        OpAddTagTableRow (SampleRow ''Weapon.Sword'') ''S2'' True False,
        OpReadNetIndex]"

text \<open>
  The parent under which the walk of \<open>InsertSubTags\<close> continues after some segments, and
  the walk over segments that are all implicit.
\<close>

fun WalkParent :: "FName option \<Rightarrow> FName list \<Rightarrow> FName option" where
  "WalkParent P [] = P"
| "WalkParent P (Seg # Rest) = WalkParent (Some (FullTagOf P Seg)) Rest"

fun InsertImplicitTags ::
  "Env \<Rightarrow> FMessageTagTableRow \<Rightarrow> FName \<Rightarrow> bool \<Rightarrow> bool \<Rightarrow> FName option \<Rightarrow> FName list
     \<Rightarrow> (FMessageTag \<times> FMessageTagNode) list \<Rightarrow> (FMessageTag \<times> FMessageTagNode) list" where
  "InsertImplicitTags env TagRow Src bRestricted bAllow Parent [] m = m"
| "InsertImplicitTags env TagRow Src bRestricted bAllow Parent (Seg # Rest) m =
     InsertImplicitTags env TagRow Src bRestricted bAllow (Some (FullTagOf Parent Seg)) Rest
       (InsertTagIntoNodeArray env Seg (FullTagOf Parent Seg) Parent Src TagRow False
          bRestricted bAllow m)"

text \<open>
  The containers of a store are in order when every node holds its own full tag as the
  single explicit tag and the strict ancestors of that tag, most specific first, as
  parents.
\<close>

definition ContainersOK :: "(FMessageTag \<times> FMessageTagNode) list \<Rightarrow> bool" where
  "ContainersOK m =
     (\<forall>k n. map_of m k = Some n \<longrightarrow>
        MessageTags (CompleteTagWithParents n) = [k]
        \<and> ParentTags (CompleteTagWithParents n) = TagAncestors k)"

text \<open>A node without its three conflict flags.\<close>

definition NodeCore :: "FMessageTagNode \<Rightarrow> FMessageTagNode" where
  "NodeCore n =
     n\<lparr>bDescendantHasConflict := False, bNodeHasConflict := False, bAncestorHasConflict := False\<rparr>"







section \<open>Lemmas\<close>

subsection \<open>Tag strings\<close>

lemma Split_not_Nil: "SplitMessageTagFName t \<noteq> []"
  by (induction t) (auto split: list.splits)

lemma Split_no_dot: "seg \<in> set (SplitMessageTagFName t) \<Longrightarrow> CHR ''.'' \<notin> set seg"
  by (induction t arbitrary: seg) (auto split: list.splits if_splits)

lemma DotPrefixes_no_dot: "CHR ''.'' \<notin> set s \<Longrightarrow> DotPrefixes pre s = []"
  by (induction s arbitrary: pre) auto

lemma DotPrefixes_append:
  "DotPrefixes pre (xs @ ys) = DotPrefixes (pre @ xs) ys @ DotPrefixes pre xs"
  by (induction xs arbitrary: pre) auto

lemma TagAncestors_top: "CHR ''.'' \<notin> set seg \<Longrightarrow> TagAncestors seg = []"
  by (simp add: TagAncestors_def DotPrefixes_no_dot)

lemma TagAncestors_child:
  "CHR ''.'' \<notin> set seg \<Longrightarrow> TagAncestors (p @ CHR ''.'' # seg) = p # TagAncestors p"
  by (simp add: TagAncestors_def DotPrefixes_append DotPrefixes_no_dot)

lemma TagAncestors_FullTagOf:
  "CHR ''.'' \<notin> set seg \<Longrightarrow>
   TagAncestors (FullTagOf P seg) = (case P of None \<Rightarrow> [] | Some p \<Rightarrow> p # TagAncestors p)"
  by (simp add: FullTagOf_def TagAncestors_top TagAncestors_child split: option.splits)

subsection \<open>Stores\<close>

lemma map_entry_keys: "map fst (AList.map_entry k f m) = map fst m"
  by (induction m) auto


lemma map_entry_absent: "map_of m k = None \<Longrightarrow> AList.map_entry k f m = m"
  by (induction m) (auto split: if_splits)

lemma map_of_map_entry': "map_of (AList.map_entry k f m) x = (if x = k then map_option f (map_of m k) else map_of m x)"
  by (induction m) auto

lemma MarkChildren_keys: "map fst (MarkChildrenOfNodeConflict N m) = map fst m"
  by (induction m) (auto simp: MarkChildrenOfNodeConflict_def)

lemma map_of_MarkChildren:
  "map_of (MarkChildrenOfNodeConflict N m) x =
     map_option (\<lambda>n. if N \<in> set (ParentTags (CompleteTagWithParents n))
                       then n\<lparr>bAncestorHasConflict := True\<rparr> else n) (map_of m x)"
  by (induction m) (auto simp: MarkChildrenOfNodeConflict_def)

lemma MarkAncestors_keys: "map fst (MarkAncestorsOfNodeConflict as m) = map fst m"
  by (induction as m rule: MarkAncestorsOfNodeConflict.induct)
     (auto simp: map_entry_keys split: option.splits)

lemma MarkNodeConflict_keys: "map fst (MarkNodeConflict N m) = map fst m"
  by (simp add: MarkNodeConflict_def MarkChildren_keys MarkAncestors_keys map_entry_keys
      split: option.splits)

lemma InsertTagIntoNodeArray_keys:
  "map fst (InsertTagIntoNodeArray env Seg Full P Src Row e r a m) =
     (if map_of m Full = None then map fst m @ [Full] else map fst m)"
  by (auto simp: InsertTagIntoNodeArray_def Let_def MarkNodeConflict_keys map_entry_keys
      split: option.splits)

lemma StoreRel_refl: "TreeStable R \<Longrightarrow> StoreRel R m m"
  by (auto simp: StoreRel_def TreeStable_def)

lemma StoreRel_trans:
  "TreeStable R \<Longrightarrow> StoreRel R a b \<Longrightarrow> StoreRel R b c \<Longrightarrow> StoreRel R a c"
  unfolding StoreRel_def TreeStable_def by meson

lemma StoreRel_map_entry:
  "\<forall>n. R n n \<Longrightarrow> \<forall>n. R n (f n) \<Longrightarrow> StoreRel R m (AList.map_entry k f m)"
  by (auto simp: StoreRel_def map_of_map_entry')

lemma StoreRel_append:
  "\<forall>n. R n n \<Longrightarrow> map_of m k = None \<Longrightarrow> StoreRel R m (m @ [(k, v)])"
  by (auto simp: StoreRel_def map_add_def split: option.splits)

lemma StoreRel_MarkChildren: "TreeStable R \<Longrightarrow> StoreRel R m (MarkChildrenOfNodeConflict N m)"
  by (auto simp: StoreRel_def TreeStable_def map_of_MarkChildren)

lemma StoreRel_MarkAncestors: "TreeStable R \<Longrightarrow> StoreRel R m (MarkAncestorsOfNodeConflict as m)"
proof (induction as m rule: MarkAncestorsOfNodeConflict.induct)
  case (1 m)
  then show ?case by (simp add: StoreRel_refl)
next
  case (2 a as m)
  show ?case
  proof (cases "map_of m a")
    case None
    then show ?thesis using 2 by (simp add: StoreRel_refl)
  next
    case (Some n)
    show ?thesis
    proof (cases "bDescendantHasConflict n")
      case True
      then show ?thesis using Some 2 by (simp add: StoreRel_refl)
    next
      case False
      have s1: "StoreRel R m (AList.map_entry a (\<lambda>n. n\<lparr>bDescendantHasConflict := True\<rparr>) m)"
        using 2(2) by (intro StoreRel_map_entry) (auto simp: TreeStable_def)
      have s2: "StoreRel R (AList.map_entry a (\<lambda>n. n\<lparr>bDescendantHasConflict := True\<rparr>) m)
                  (MarkAncestorsOfNodeConflict as (AList.map_entry a (\<lambda>n. n\<lparr>bDescendantHasConflict := True\<rparr>) m))"
        using 2(1)[OF Some False 2(2)] .
      show ?thesis using Some False StoreRel_trans[OF 2(2) s1 s2] by simp
    qed
  qed
qed

lemma StoreRel_MarkNodeConflict: "TreeStable R \<Longrightarrow> StoreRel R m (MarkNodeConflict N m)"
proof -
  assume st: "TreeStable R"
  show ?thesis
  proof (cases "map_of m N")
    case None
    then show ?thesis using st by (simp add: MarkNodeConflict_def StoreRel_refl)
  next
    case (Some n)
    have s1: "StoreRel R m (AList.map_entry N (\<lambda>n. n\<lparr>bNodeHasConflict := True\<rparr>) m)"
      using st by (intro StoreRel_map_entry) (auto simp: TreeStable_def)
    show ?thesis
      using Some st
      by (auto simp: MarkNodeConflict_def
          intro: StoreRel_trans[OF st s1] StoreRel_trans[OF st StoreRel_MarkAncestors[OF st] StoreRel_MarkChildren[OF st]])
  qed
qed

lemma StoreRel_InsertTagIntoNodeArray:
  assumes st: "TreeStable R"
  shows "StoreRel R m (InsertTagIntoNodeArray env Seg Full P Src Row e r a m)"
proof (cases "map_of m Full")
  case None
  have s1: "StoreRel R m (m @ [(Full, v)])" for v
    using st None by (intro StoreRel_append) (auto simp: TreeStable_def)
  have s2: "StoreRel R m (MarkNodeConflict Full (m @ [(Full, v)]))" for v
    using StoreRel_trans[OF st s1 StoreRel_MarkNodeConflict[OF st]] .
  show ?thesis unfolding InsertTagIntoNodeArray_def Let_def
    by (simp add: None s1 s2)
next
  case (Some n)
  let ?f = "\<lambda>n. n\<lparr>bIsExplicitTag := True, SourceName := Src, DevComment := RowDevComment Row\<rparr>"
  have s1: "StoreRel R m (AList.map_entry Full ?f m)" if "\<not> bIsExplicitTag n"
    unfolding StoreRel_def
  proof (intro allI impI)
    fix k x
    assume kx: "map_of m k = Some x"
    show "\<exists>n'. map_of (AList.map_entry Full ?f m) k = Some n' \<and> R x n'"
    proof (cases "k = Full")
      case True
      then have "x = n" using kx Some by simp
      then have "R x (?f x)" using st that unfolding TreeStable_def by blast
      then show ?thesis using True kx by (simp add: map_of_map_entry')
    next
      case False
      have "R x x" using st unfolding TreeStable_def by blast
      then show ?thesis using False kx by (simp add: map_of_map_entry')
    qed
  qed
  have s3: "StoreRel R m (MarkNodeConflict Full m)"
    using StoreRel_MarkNodeConflict[OF st] .
  have s4: "StoreRel R m m"
    using StoreRel_refl[OF st] .
  show ?thesis unfolding InsertTagIntoNodeArray_def Let_def
    using s1 by (simp add: Some s3 s4)
qed

lemma StoreRel_InsertSubTags:
  "TreeStable R \<Longrightarrow> StoreRel R m (InsertSubTags env Row Src r a P segs m)"
proof (induction segs arbitrary: P m)
  case Nil
  then show ?case by (simp add: StoreRel_refl)
next
  case (Cons Seg Rest)
  show ?case
    using StoreRel_trans[OF Cons.prems StoreRel_InsertTagIntoNodeArray[OF Cons.prems] Cons.IH[OF Cons.prems]]
    by simp
qed

subsection \<open>Bit widths\<close>



lemma CeilLogTwo_covers: "n \<le> 2 ^ CeilLogTwo n"
proof (induction n rule: CeilLogTwo.induct)
  case 1
  then show ?case by simp
next
  case 2
  then show ?case by simp
next
  case (3 n)
  then have "Suc (Suc n) \<le> 2 * 2 ^ CeilLogTwo ((n + 3) div 2)" by linarith
  then show ?case by (simp add: CeilLogTwo.simps(3))
qed

lemma CeilLogTwo_least: "n \<le> 2 ^ b \<Longrightarrow> CeilLogTwo n \<le> b"
proof (induction n arbitrary: b rule: CeilLogTwo.induct)
  case (1 b)
  then show ?case by simp
next
  case (2 b)
  then show ?case by simp
next
  case (3 n)
  have "b \<noteq> 0" using "3.prems" by (cases b) auto
  then obtain b' where b: "b = Suc b'" by (cases b) auto
  have "Suc (Suc n) \<le> 2 * 2 ^ b'" using "3.prems" b by simp
  then have "(n + 3) div 2 \<le> 2 ^ b'" by linarith
  then have "CeilLogTwo ((n + 3) div 2) \<le> b'" by (rule "3.IH")
  then show ?case using b by (simp add: CeilLogTwo.simps(3))
qed

lemma CeilLogTwo_mono: "m \<le> n \<Longrightarrow> CeilLogTwo m \<le> CeilLogTwo n"
  using CeilLogTwo_covers[of n] by (intro CeilLogTwo_least) simp





subsection \<open>The index table\<close>

lemma table_length:
  "length (sort (filter P xs) @ sort (filter (\<lambda>x. \<not> P x) xs)) = length xs"
  by (simp add: sum_length_filter_compl)

lemma table_set: "set (sort (filter P xs) @ sort (filter (\<lambda>x. \<not> P x) xs)) = set xs"
  by auto

lemma table_distinct:
  "distinct xs \<Longrightarrow> distinct (sort (filter P xs) @ sort (filter (\<lambda>x. \<not> P x) xs))"
  by auto

lemma table_unique:
  assumes "distinct xs" "distinct ys" "set xs = set ys"
  shows "sort (filter P xs) @ sort (filter (\<lambda>x. \<not> P x) xs)
       = sort (filter P ys) @ sort (filter (\<lambda>x. \<not> P x) ys)"
proof -
  have "sort (filter Q xs) = sort (filter Q ys)" for Q
    using assms by (intro sorted_distinct_set_unique) auto
  then show ?thesis by simp
qed

lemma ConstructNetIndex_table:
  "NetworkMessageTagNodeIndex (ConstructNetIndex env mgr) =
     sort (filter (\<lambda>t. t \<in> set (CommonlyReplicatedTags mgr)) (map fst (MessageTagNodeMap mgr)))
     @ sort (filter (\<lambda>t. t \<notin> set (CommonlyReplicatedTags mgr)) (map fst (MessageTagNodeMap mgr)))"
  by (simp add: ConstructNetIndex_def Let_def)

lemma ConstructNetIndex_table_length:
  "length (NetworkMessageTagNodeIndex (ConstructNetIndex env mgr)) = length (MessageTagNodeMap mgr)"
  unfolding ConstructNetIndex_table using table_length[of _ "map fst (MessageTagNodeMap mgr)"]
  by simp

lemma ConstructNetIndex_table_set:
  "set (NetworkMessageTagNodeIndex (ConstructNetIndex env mgr)) = fst ` set (MessageTagNodeMap mgr)"
  unfolding ConstructNetIndex_table using table_set[of _ "map fst (MessageTagNodeMap mgr)"]
  by simp

lemma ConstructNetIndex_table_distinct:
  "distinct (map fst (MessageTagNodeMap mgr)) \<Longrightarrow>
   distinct (NetworkMessageTagNodeIndex (ConstructNetIndex env mgr))"
  unfolding ConstructNetIndex_table by (rule table_distinct)

lemma ConstructNetIndex_invalid:
  "InvalidTagNetIndex (ConstructNetIndex env mgr) = length (MessageTagNodeMap mgr)"
  using ConstructNetIndex_table_length[of env mgr]
  by (simp add: ConstructNetIndex_def Let_def)

lemma ConstructNetIndex_bits:
  "NetIndexTrueBitNum (ConstructNetIndex env mgr) =
     CeilLogTwo (length (MessageTagNodeMap mgr) + 1)"
  using ConstructNetIndex_table_length[of env mgr]
  by (simp add: ConstructNetIndex_def Let_def)

lemma ConstructNetIndex_hash:
  "NetworkMessageTagNodeIndexHash (ConstructNetIndex env mgr) =
     IndexTableHash env (zip [0..<length (MessageTagNodeMap mgr)] (NetworkMessageTagNodeIndex (ConstructNetIndex env mgr)))"
  using ConstructNetIndex_table_length[of env mgr]
  by (simp add: ConstructNetIndex_def Let_def)

lemma ConstructNetIndex_other:
  "NetIndexFirstBitSegment (ConstructNetIndex env mgr) =
     min (FirstBitSegmentSetting env) (NetIndexTrueBitNum (ConstructNetIndex env mgr))"
  "bNetworkIndexInvalidated (ConstructNetIndex env mgr) = False"
  "CommonlyReplicatedTags (ConstructNetIndex env mgr) = CommonlyReplicatedTags mgr"
  "InvalidTagCharacters (ConstructNetIndex env mgr) = InvalidTagCharacters mgr"
  "MessageTagNodeMap (ConstructNetIndex env mgr) =
     AssignNetIndices 0 (NetworkMessageTagNodeIndex (ConstructNetIndex env mgr)) (MessageTagNodeMap mgr)"
  by (simp_all add: ConstructNetIndex_def Let_def)

subsection \<open>Index assignment\<close>



lemma AssignNetIndices_keys: "map fst (AssignNetIndices i ts m) = map fst m"
  by (induction ts arbitrary: i m) (auto simp: map_entry_keys)

lemma map_of_AssignNetIndices:
  "distinct ts \<Longrightarrow>
   map_of (AssignNetIndices i ts m) k =
     (if k \<in> set ts then map_option (\<lambda>n. n\<lparr>NetIndex := i + IndexInTable k ts\<rparr>) (map_of m k)
      else map_of m k)"
proof (induction ts arbitrary: i m)
  case Nil
  then show ?case by simp
next
  case (Cons t ts)
  then show ?case by (auto simp: map_of_map_entry' option.map_comp o_def)
qed

lemma StoreRel_AssignNetIndices:
  assumes "\<forall>n. R n n" "\<forall>a b c. R a b \<longrightarrow> R b c \<longrightarrow> R a c" "\<forall>n i. R n (n\<lparr>NetIndex := i\<rparr>)"
  shows "StoreRel R m (AssignNetIndices i ts m)"
proof (induction ts arbitrary: i m)
  case Nil
  then show ?case using assms(1) by (simp add: StoreRel_def)
next
  case (Cons t ts)
  have "StoreRel R m (AList.map_entry t (\<lambda>n. n\<lparr>NetIndex := i\<rparr>) m)"
    using assms by (intro StoreRel_map_entry) auto
  then show ?case using Cons.IH[of "AList.map_entry t (\<lambda>n. n\<lparr>NetIndex := i\<rparr>) m" "Suc i"] assms(2)
    unfolding StoreRel_def by simp meson
qed

lemma ConstructNetIndex_node:
  assumes d: "distinct (map fst (MessageTagNodeMap mgr))"
  shows "map_of (MessageTagNodeMap (ConstructNetIndex env mgr)) k =
           map_option (\<lambda>n. n\<lparr>NetIndex := IndexInTable k (NetworkMessageTagNodeIndex (ConstructNetIndex env mgr))\<rparr>)
             (map_of (MessageTagNodeMap mgr) k)"
proof -
  have "k \<notin> fst ` set (MessageTagNodeMap mgr) \<Longrightarrow> map_of (MessageTagNodeMap mgr) k = None"
    by (simp add: map_of_eq_None_iff)
  then show ?thesis
    using map_of_AssignNetIndices[OF ConstructNetIndex_table_distinct[OF d], of 0 env "MessageTagNodeMap mgr" k]
    by (auto simp: ConstructNetIndex_other(5) ConstructNetIndex_table_set)
qed

subsection \<open>Histories keep the keys distinct\<close>

lemma InsertTagIntoNodeArray_distinct:
  "distinct (map fst m) \<Longrightarrow> distinct (map fst (InsertTagIntoNodeArray env Seg Full P Src Row e r a m))"
  by (auto simp: InsertTagIntoNodeArray_keys map_of_eq_None_iff)

lemma InsertSubTags_distinct:
  "distinct (map fst m) \<Longrightarrow> distinct (map fst (InsertSubTags env Row Src r a P segs m))"
  by (induction segs arbitrary: P m) (auto simp: InsertTagIntoNodeArray_distinct)

lemma ApplyOp_distinct:
  "distinct (map fst (MessageTagNodeMap mgr)) \<Longrightarrow> distinct (map fst (MessageTagNodeMap (ApplyOp env mgr op)))"
  by (cases op)
     (auto simp: AddTagTableRow_def InvalidateNetworkIndex_def DestroyMessageTagTree_def
        VerifyNetworkIndex_def ConstructNetIndex_other(5) AssignNetIndices_keys InsertSubTags_distinct)

lemma RunOps_snoc: "RunOps env mgr (ops @ [op]) = ApplyOp env (RunOps env mgr ops) op"
  by (simp add: RunOps_def)

lemma RunOps_distinct:
  "distinct (map fst (MessageTagNodeMap (RunOps env (InitialManager c iv) ops)))"
proof (induction ops rule: rev_induct)
  case Nil
  then show ?case by (simp add: RunOps_def InitialManager_def)
next
  case (snoc op ops)
  then show ?case by (simp add: RunOps_snoc ApplyOp_distinct)
qed

subsection \<open>Rows and sample registries\<close>

lemma AddTagTableRow_fields:
  "NetworkMessageTagNodeIndex (AddTagTableRow env row src r a mgr) = NetworkMessageTagNodeIndex mgr"
  "NetworkMessageTagNodeIndexHash (AddTagTableRow env row src r a mgr) = NetworkMessageTagNodeIndexHash mgr"
  "NetIndexTrueBitNum (AddTagTableRow env row src r a mgr) = NetIndexTrueBitNum mgr"
  "NetIndexFirstBitSegment (AddTagTableRow env row src r a mgr) = NetIndexFirstBitSegment mgr"
  "InvalidTagNetIndex (AddTagTableRow env row src r a mgr) = InvalidTagNetIndex mgr"
  "CommonlyReplicatedTags (AddTagTableRow env row src r a mgr) = CommonlyReplicatedTags mgr"
  "InvalidTagCharacters (AddTagTableRow env row src r a mgr) = InvalidTagCharacters mgr"
  by (simp_all add: AddTagTableRow_def InvalidateNetworkIndex_def)

lemma AddTagTableRow_map:
  "MessageTagNodeMap (AddTagTableRow env row src r a mgr) =
     (if IsValidMessageTagString mgr (RowTag row)
      then InsertSubTags env row src r a None (SplitMessageTagFName (RowTag row)) (MessageTagNodeMap mgr)
      else MessageTagNodeMap mgr)"
  by (simp add: AddTagTableRow_def InvalidateNetworkIndex_def)

lemma TreeStable_NetIndex: "TreeStable (\<lambda>n n'. NetIndex n' = NetIndex n)"
  by (simp add: TreeStable_def)

lemma AddTagTableRow_keeps_NetIndex:
  "map_of (MessageTagNodeMap mgr) k = Some n \<Longrightarrow>
   \<exists>n'. map_of (MessageTagNodeMap (AddTagTableRow env row src r a mgr)) k = Some n'
        \<and> NetIndex n' = NetIndex n"
  using StoreRel_InsertSubTags[OF TreeStable_NetIndex, of "MessageTagNodeMap mgr" env row src r a None
      "SplitMessageTagFName (RowTag row)"]
  by (auto simp: AddTagTableRow_map StoreRel_def)

lemmas eval_defs = RunOps_def AddTagTableRow_def InvalidateNetworkIndex_def IsValidMessageTagString_def
  InitialManager_def InsertTagIntoNodeArray_def Let_def RestrictionConflict_def NewTagNode_def
  FullTagOf_def MarkNodeConflict_def MarkChildrenOfNodeConflict_def SampleRow_def SampleEnv_def
  GetCompleteTag_def GetSingleTagContainerOfNode_def NAME_None_def VerifyNetworkIndex_def
  ConstructNetIndex_def

lemma SampleManager_map_keys:
  "map fst (MessageTagNodeMap SampleManager) = [''Weapon'', ''Weapon.Gun'', ''Weapon.Gun.Rifle'', ''Weapon.Sword'']"
  by (simp add: SampleManager_def eval_defs)

lemma SampleManager_rebuilt:
  "NetworkMessageTagNodeIndex (VerifyNetworkIndex SampleEnv SampleManager)
     = [''Weapon.Sword'', ''Weapon'', ''Weapon.Gun'', ''Weapon.Gun.Rifle'']"
  "map (\<lambda>(k, n). (k, NetIndex n)) (MessageTagNodeMap (VerifyNetworkIndex SampleEnv SampleManager))
     = [(''Weapon'', 1), (''Weapon.Gun'', 2), (''Weapon.Gun.Rifle'', 3), (''Weapon.Sword'', 0)]"
  "InvalidTagNetIndex (VerifyNetworkIndex SampleEnv SampleManager) = 4"
  by (simp_all add: SampleManager_def eval_defs)

subsection \<open>A rebuild of a rebuilt index changes nothing\<close>

lemma map_unchanged: "(\<And>x. x \<in> set xs \<Longrightarrow> f x = x) \<Longrightarrow> map f xs = xs"
  by (induction xs) auto

lemma key_in_keys: "(a, b) \<in> set xs \<Longrightarrow> a \<in> fst ` set xs"
  by force

lemma map_entry_as_map:
  "distinct (map fst m) \<Longrightarrow>
   AList.map_entry k f m = map (\<lambda>(k', n). (k', if k' = k then f n else n)) m"
proof (induction m)
  case Nil
  then show ?case by simp
next
  case (Cons p ps)
  obtain k' v where p: "p = (k', v)" by (cases p)
  show ?case
  proof (cases "k' = k")
    case True
    then have "k \<notin> fst ` set ps" using Cons.prems p by auto
    then have "map (\<lambda>(k', n). (k', if k' = k then f n else n)) ps = ps"
      by (intro map_unchanged) (auto dest: key_in_keys)
    then show ?thesis using True p by simp
  next
    case False
    then show ?thesis using Cons p by simp
  qed
qed

lemma AssignNetIndices_as_map:
  "distinct (map fst m) \<Longrightarrow> distinct ts \<Longrightarrow>
   AssignNetIndices i ts m =
     map (\<lambda>(k, n). (k, if k \<in> set ts then n\<lparr>NetIndex := i + IndexInTable k ts\<rparr> else n)) m"
proof (induction ts arbitrary: i m)
  case Nil
  then show ?case by simp
next
  case (Cons t ts)
  let ?f = "\<lambda>n. n\<lparr>NetIndex := i\<rparr>"
  have d: "distinct (map fst (AList.map_entry t ?f m))"
    using Cons.prems by (simp add: map_entry_keys)
  have "AssignNetIndices i (t # ts) m = AssignNetIndices (Suc i) ts (AList.map_entry t ?f m)"
    by simp
  also have "\<dots> = map (\<lambda>(k, n). (k, if k \<in> set ts then n\<lparr>NetIndex := Suc i + IndexInTable k ts\<rparr> else n))
                     (AList.map_entry t ?f m)"
    using Cons.IH[OF d] Cons.prems by simp
  also have "\<dots> = map (\<lambda>(k, n). (k, if k \<in> set (t # ts) then n\<lparr>NetIndex := i + IndexInTable k (t # ts)\<rparr> else n)) m"
    using Cons.prems by (auto simp: map_entry_as_map)
  finally show ?case .
qed

lemma ConstructNetIndex_map:
  assumes "distinct (map fst (MessageTagNodeMap mgr))"
  shows "MessageTagNodeMap (ConstructNetIndex env mgr) =
           map (\<lambda>(k, n). (k, n\<lparr>NetIndex := IndexInTable k (NetworkMessageTagNodeIndex (ConstructNetIndex env mgr))\<rparr>))
             (MessageTagNodeMap mgr)"
proof -
  let ?T = "NetworkMessageTagNodeIndex (ConstructNetIndex env mgr)"
  have "MessageTagNodeMap (ConstructNetIndex env mgr) =
          map (\<lambda>(k, n). (k, if k \<in> set ?T then n\<lparr>NetIndex := 0 + IndexInTable k ?T\<rparr> else n))
            (MessageTagNodeMap mgr)"
    unfolding ConstructNetIndex_other(5)
    by (rule AssignNetIndices_as_map[OF assms ConstructNetIndex_table_distinct[OF assms]])
  also have "\<dots> = map (\<lambda>(k, n). (k, n\<lparr>NetIndex := IndexInTable k ?T\<rparr>)) (MessageTagNodeMap mgr)"
    by (rule map_cong) (auto simp: ConstructNetIndex_table_set dest: key_in_keys)
  finally show ?thesis .
qed

lemma ConstructNetIndex_map_keys:
  "map fst (MessageTagNodeMap (ConstructNetIndex env mgr)) = map fst (MessageTagNodeMap mgr)"
  by (simp add: ConstructNetIndex_other(5) AssignNetIndices_keys)

lemma ConstructNetIndex_same_keys_table:
  assumes "map fst (MessageTagNodeMap a) = map fst (MessageTagNodeMap b)"
    and "CommonlyReplicatedTags a = CommonlyReplicatedTags b"
  shows "NetworkMessageTagNodeIndex (ConstructNetIndex env a) = NetworkMessageTagNodeIndex (ConstructNetIndex env b)"
  using assms by (simp add: ConstructNetIndex_table)

lemma ConstructNetIndex_idem:
  assumes d: "distinct (map fst (MessageTagNodeMap mgr))"
  shows "ConstructNetIndex env (ConstructNetIndex env mgr) = ConstructNetIndex env mgr"
proof -
  let ?a = "ConstructNetIndex env mgr"
  let ?b = "ConstructNetIndex env ?a"
  have keys: "map fst (MessageTagNodeMap ?a) = map fst (MessageTagNodeMap mgr)"
    by (rule ConstructNetIndex_map_keys)
  have d': "distinct (map fst (MessageTagNodeMap ?a))" using d keys by simp
  have T: "NetworkMessageTagNodeIndex ?b = NetworkMessageTagNodeIndex ?a"
    using ConstructNetIndex_same_keys_table[OF keys, of env] by (simp add: ConstructNetIndex_other(3))
  have len: "length (MessageTagNodeMap ?a) = length (MessageTagNodeMap mgr)"
    using arg_cong[OF keys, of length] by simp
  have M: "MessageTagNodeMap ?b = MessageTagNodeMap ?a"
    unfolding ConstructNetIndex_map[OF d'] T
    unfolding ConstructNetIndex_map[OF d]
    by (simp add: case_prod_unfold o_def)
  have "?b = ?a"
    apply (rule UMessageTagsManager.equality)
    using M T len
    by (simp_all add: ConstructNetIndex_invalid ConstructNetIndex_bits ConstructNetIndex_hash
        ConstructNetIndex_other(1-4))
  then show ?thesis .
qed

subsection \<open>Histories keep the configuration and a valid index current\<close>

lemma ApplyOp_config:
  "CommonlyReplicatedTags (ApplyOp env mgr op) = CommonlyReplicatedTags mgr"
  by (cases op)
     (simp_all add: AddTagTableRow_fields DestroyMessageTagTree_def VerifyNetworkIndex_def
        ConstructNetIndex_other(3))

lemma RunOps_config:
  "CommonlyReplicatedTags (RunOps env (InitialManager c iv) ops) = c"
proof (induction ops rule: rev_induct)
  case Nil
  then show ?case by (simp add: RunOps_def InitialManager_def)
next
  case (snoc op ops)
  then show ?case by (simp add: RunOps_snoc ApplyOp_config)
qed

lemma ApplyOp_current:
  assumes d: "distinct (map fst (MessageTagNodeMap mgr))"
    and c: "\<not> bNetworkIndexInvalidated mgr \<longrightarrow> ConstructNetIndex env mgr = mgr"
  shows "\<not> bNetworkIndexInvalidated (ApplyOp env mgr op)
         \<longrightarrow> ConstructNetIndex env (ApplyOp env mgr op) = ApplyOp env mgr op"
proof (cases op)
  case (OpAddTagTableRow row src r a)
  then show ?thesis using c
    by (simp add: AddTagTableRow_def InvalidateNetworkIndex_def)
next
  case OpDestroyMessageTagTree
  then show ?thesis by (simp add: DestroyMessageTagTree_def)
next
  case OpReadNetIndex
  then show ?thesis using c ConstructNetIndex_idem[OF d, of env]
    by (simp add: VerifyNetworkIndex_def)
qed

lemma RunOps_current:
  "\<not> bNetworkIndexInvalidated (RunOps env (InitialManager c iv) ops)
   \<longrightarrow> ConstructNetIndex env (RunOps env (InitialManager c iv) ops)
        = RunOps env (InitialManager c iv) ops"
proof (induction ops rule: rev_induct)
  case Nil
  then show ?case by (simp add: RunOps_def InitialManager_def)
next
  case (snoc op ops)
  show ?case unfolding RunOps_snoc
    by (rule ApplyOp_current[OF RunOps_distinct snoc])
qed

lemma RunOps_Verify:
  "VerifyNetworkIndex env (RunOps env (InitialManager c iv) ops)
     = ConstructNetIndex env (RunOps env (InitialManager c iv) ops)"
  using RunOps_current[of env c iv ops] by (simp add: VerifyNetworkIndex_def)

subsection \<open>Two registries with the same tags\<close>

lemma same_tags_table:
  assumes da: "distinct (map fst (MessageTagNodeMap a))"
    and db: "distinct (map fst (MessageTagNodeMap b))"
    and s: "fst ` set (MessageTagNodeMap a) = fst ` set (MessageTagNodeMap b)"
    and c: "CommonlyReplicatedTags a = CommonlyReplicatedTags b"
  shows "NetworkMessageTagNodeIndex (ConstructNetIndex env a)
       = NetworkMessageTagNodeIndex (ConstructNetIndex env b)"
  unfolding ConstructNetIndex_table c
  by (rule table_unique[OF da db]) (use s in simp)

lemma same_tags_length:
  assumes da: "distinct (map fst (MessageTagNodeMap a))"
    and db: "distinct (map fst (MessageTagNodeMap b))"
    and s: "fst ` set (MessageTagNodeMap a) = fst ` set (MessageTagNodeMap b)"
  shows "length (MessageTagNodeMap a) = length (MessageTagNodeMap b)"
proof -
  have "card (set (map fst (MessageTagNodeMap a))) = card (set (map fst (MessageTagNodeMap b)))"
    using s by simp
  then show ?thesis using distinct_card[OF da] distinct_card[OF db] by simp
qed

lemma rebuilt_lookup:
  assumes d: "distinct (map fst (MessageTagNodeMap mgr))"
  shows "map_option NetIndex (map_of (MessageTagNodeMap (ConstructNetIndex env mgr)) k) =
           (if k \<in> fst ` set (MessageTagNodeMap mgr)
            then Some (IndexInTable k (NetworkMessageTagNodeIndex (ConstructNetIndex env mgr)))
            else None)"
proof (cases "map_of (MessageTagNodeMap mgr) k")
  case None
  then show ?thesis
    by (simp add: ConstructNetIndex_node[OF d] map_of_eq_None_iff)
next
  case (Some n)
  then have "k \<in> fst ` set (MessageTagNodeMap mgr)"
    using map_of_eq_None_iff[of "MessageTagNodeMap mgr" k] by simp
  then show ?thesis using Some by (simp add: ConstructNetIndex_node[OF d])
qed

lemma GetNetIndexFromTag_rebuilt:
  assumes d: "distinct (map fst (MessageTagNodeMap mgr))"
  shows "fst (GetNetIndexFromTag env (ConstructNetIndex env mgr) t) =
     (let T = NetworkMessageTagNodeIndex (ConstructNetIndex env mgr);
          K = fst ` set (MessageTagNodeMap mgr)
      in if t \<in> K then IndexInTable t T
         else if WITH_EDITOR env \<and> GIsEditor env \<and> TagIsValid env t
                 \<and> RedirectSingleMessageTag env t \<in> K
              then IndexInTable (RedirectSingleMessageTag env t) T
              else length (MessageTagNodeMap mgr))"
proof -
  let ?m = "ConstructNetIndex env mgr"
  have v: "VerifyNetworkIndex env ?m = ?m"
    by (simp add: VerifyNetworkIndex_def ConstructNetIndex_other(2))
  have L: "map_of (MessageTagNodeMap ?m) k = Some n \<Longrightarrow>
           k \<in> fst ` set (MessageTagNodeMap mgr)
           \<and> NetIndex n = IndexInTable k (NetworkMessageTagNodeIndex ?m)" for k n
    using rebuilt_lookup[OF d, of env k] by (auto split: if_splits)
  have N: "map_of (MessageTagNodeMap ?m) k = None \<Longrightarrow> k \<notin> fst ` set (MessageTagNodeMap mgr)" for k
    using rebuilt_lookup[OF d, of env k] by (auto split: if_splits)
  show ?thesis
    unfolding GetNetIndexFromTag_def v Let_def FindTagNode_def FindTagNodeSteps_def
    by (auto simp: ConstructNetIndex_invalid split: option.splits dest: L N)
qed

lemma Verify_idem: "VerifyNetworkIndex env (VerifyNetworkIndex env mgr) = VerifyNetworkIndex env mgr"
  by (simp add: VerifyNetworkIndex_def ConstructNetIndex_other(2))

lemma GetNetIndexFromTag_Verify:
  "fst (GetNetIndexFromTag env mgr t) = fst (GetNetIndexFromTag env (VerifyNetworkIndex env mgr) t)"
  by (simp add: GetNetIndexFromTag_def Let_def Verify_idem)

lemma GetTagNameFromNetIndex_Verify:
  "fst (GetTagNameFromNetIndex env mgr i) =
     (if i < length (NetworkMessageTagNodeIndex (VerifyNetworkIndex env mgr))
      then Some (NetworkMessageTagNodeIndex (VerifyNetworkIndex env mgr) ! i) else None)"
  by (simp add: GetTagNameFromNetIndex_def Let_def)

subsection \<open>The walk of a row\<close>

lemma Join_Split:
  "(case SplitMessageTagFName t of [] \<Rightarrow> [] | w # ws \<Rightarrow> w @ concat (map ((#) CHR ''.'') ws)) = t"
  by (induction t) (auto split: list.splits)

lemma WalkParent_Some:
  "WalkParent (Some q) ws = Some (q @ concat (map ((#) CHR ''.'') ws))"
  by (induction ws arbitrary: q) (simp_all add: FullTagOf_def)

lemma WalkParent_Split: "WalkParent None (SplitMessageTagFName t) = Some t"
proof (cases "SplitMessageTagFName t")
  case Nil
  then show ?thesis using Split_not_Nil by blast
next
  case (Cons w ws)
  then show ?thesis using Join_Split[of t] by (simp add: WalkParent_Some FullTagOf_def)
qed

lemma WalkParent_snoc:
  "WalkParent P (segs @ [s]) = Some (FullTagOf (WalkParent P segs) s)"
  by (induction segs arbitrary: P) auto

lemma InsertSubTags_snoc:
  "InsertSubTags env row src r a P (segs @ [s]) m =
     InsertTagIntoNodeArray env s (FullTagOf (WalkParent P segs) s) (WalkParent P segs) src row True r a
       (InsertImplicitTags env row src r a P segs m)"
proof (induction segs arbitrary: P m)
  case Nil
  then show ?case by simp
next
  case (Cons x xs)
  then show ?case by simp
qed

lemma Split_snoc: "\<exists>segs s. SplitMessageTagFName t = segs @ [s]"
  using Split_not_Nil[of t] by (cases "SplitMessageTagFName t" rule: rev_cases) auto




subsection \<open>New nodes and valid indices\<close>




subsection \<open>Containers\<close>

lemma DotPrefixes_set:
  "set (DotPrefixes pre s) = {pre @ u | u rest. s = u @ CHR ''.'' # rest}"
proof (induction s arbitrary: pre)
  case Nil
  then show ?case by simp
next
  case (Cons c cs)
  have split: "(c # cs = u @ CHR ''.'' # rest) =
        ((u = [] \<and> c = CHR ''.'' \<and> rest = cs) \<or> (\<exists>u'. u = c # u' \<and> cs = u' @ CHR ''.'' # rest))"
    for u rest
    by (cases u) auto
  have "{pre @ u | u rest. c # cs = u @ CHR ''.'' # rest}
      = (if c = CHR ''.'' then {pre} else {}) \<union> {(pre @ [c]) @ u' | u' rest. cs = u' @ CHR ''.'' # rest}"
    unfolding split by auto
  then show ?case using Cons.IH[of "pre @ [c]"] by auto
qed

lemma TagAncestors_set: "set (TagAncestors t) = {p. \<exists>rest. t = p @ CHR ''.'' # rest}"
  by (simp add: TagAncestors_def DotPrefixes_set)

lemma DotPrefixes_length:
  "p \<in> set (DotPrefixes pre s) \<Longrightarrow> length pre \<le> length p"
  by (auto simp: DotPrefixes_set)

lemma DotPrefixes_decreasing:
  "sorted_wrt (\<lambda>x y. length y < length x) (DotPrefixes pre s)"
proof (induction s arbitrary: pre)
  case Nil
  then show ?case by simp
next
  case (Cons c cs)
  have "length pre < length p" if "p \<in> set (DotPrefixes (pre @ [c]) cs)" for p
    using DotPrefixes_length[OF that] by simp
  then show ?case using Cons.IH[of "pre @ [c]"] by (auto simp: sorted_wrt_append)
qed

lemma TreeStable_container:
  "TreeStable (\<lambda>n n'. CompleteTagWithParents n' = CompleteTagWithParents n)"
  by (simp add: TreeStable_def)

lemma ContainersOK_kept:
  assumes ok: "ContainersOK m"
    and rel: "StoreRel (\<lambda>n n'. CompleteTagWithParents n' = CompleteTagWithParents n) m m'"
    and keys: "fst ` set m' \<subseteq> fst ` set m"
  shows "ContainersOK m'"
  unfolding ContainersOK_def
proof (intro allI impI)
  fix k n' assume k: "map_of m' k = Some n'"
  then have "k \<in> fst ` set m'" using map_of_eq_None_iff[of m' k] by simp
  then have "k \<in> fst ` set m" using keys by blast
  then obtain n where n: "map_of m k = Some n" using map_of_eq_None_iff[of m k] by auto
  with rel k have "CompleteTagWithParents n' = CompleteTagWithParents n"
    unfolding StoreRel_def by fastforce
  then show "MessageTags (CompleteTagWithParents n') = [k]
        \<and> ParentTags (CompleteTagWithParents n') = TagAncestors k"
    using ok n unfolding ContainersOK_def by simp
qed

lemma ContainersOK_MarkNodeConflict: "ContainersOK m \<Longrightarrow> ContainersOK (MarkNodeConflict N m)"
  by (rule ContainersOK_kept[OF _ StoreRel_MarkNodeConflict[OF TreeStable_container]])
     (simp_all flip: set_map add: MarkNodeConflict_keys)

lemma ContainersOK_map_entry:
  "ContainersOK m \<Longrightarrow> (\<And>n. CompleteTagWithParents (f n) = CompleteTagWithParents n)
   \<Longrightarrow> ContainersOK (AList.map_entry k f m)"
  by (rule ContainersOK_kept[OF _ StoreRel_map_entry])
     (simp_all flip: set_map add: map_entry_keys)

lemma ContainersOK_new:
  assumes ok: "ContainersOK m"
    and fresh: "map_of m (FullTagOf P s) = None"
    and nodot: "CHR ''.'' \<notin> set s"
    and parent: "\<And>p. P = Some p \<Longrightarrow> p \<in> fst ` set m"
    and cont: "CompleteTagWithParents n1 = CompleteTagWithParents (NewTagNode env m s (FullTagOf P s) P e r a)"
  shows "ContainersOK (m @ [(FullTagOf P s, n1)])"
  unfolding ContainersOK_def
proof (intro allI impI)
  fix k n assume k: "map_of (m @ [(FullTagOf P s, n1)]) k = Some n"
  show "MessageTags (CompleteTagWithParents n) = [k]
        \<and> ParentTags (CompleteTagWithParents n) = TagAncestors k"
  proof (cases "map_of m k")
    case (Some n0)
    then have "n = n0" using k by (simp add: map_add_def)
    then show ?thesis using ok Some unfolding ContainersOK_def by simp
  next
    case None
    then have kn: "k = FullTagOf P s" "n = n1" using k by (auto simp: map_add_def split: if_splits)
    show ?thesis
    proof (cases P)
      case None
      then show ?thesis using kn cont nodot
        by (simp add: NewTagNode_def TagAncestors_FullTagOf)
    next
      case (Some p)
      then obtain pn where pn: "map_of m p = Some pn"
        using parent[OF Some] map_of_eq_None_iff[of m p] by auto
      then have "MessageTags (CompleteTagWithParents pn) = [p]"
        "ParentTags (CompleteTagWithParents pn) = TagAncestors p"
        using ok unfolding ContainersOK_def by simp_all
      then show ?thesis using kn cont nodot Some pn
        by (simp add: NewTagNode_def TagAncestors_FullTagOf GetCompleteTag_def
            GetSingleTagContainerOfNode_def)
    qed
  qed
qed

lemma ContainersOK_InsertTagIntoNodeArray:
  assumes ok: "ContainersOK m"
    and nodot: "CHR ''.'' \<notin> set s"
    and parent: "\<And>p. P = Some p \<Longrightarrow> p \<in> fst ` set m"
  shows "ContainersOK (InsertTagIntoNodeArray env s (FullTagOf P s) P src row e r a m)"
proof (cases "map_of m (FullTagOf P s)")
  case None
  have c1: "ContainersOK (m @ [(FullTagOf P s, NewTagNode env m s (FullTagOf P s) P e r a)])"
    by (rule ContainersOK_new[OF ok None nodot parent]) simp_all
  have c2: "ContainersOK (m @ [(FullTagOf P s,
              (NewTagNode env m s (FullTagOf P s) P e r a)\<lparr>SourceName := src, DevComment := RowDevComment row\<rparr>)])"
    by (rule ContainersOK_new[OF ok None nodot parent]) simp_all
  show ?thesis unfolding InsertTagIntoNodeArray_def Let_def
    using None c1 c2 ContainersOK_MarkNodeConflict[OF c1] ContainersOK_MarkNodeConflict[OF c2]
    by (cases e) simp_all
next
  case (Some n)
  let ?m1 = "AList.map_entry (FullTagOf P s)
               (\<lambda>n. n\<lparr>bIsExplicitTag := True, SourceName := src, DevComment := RowDevComment row\<rparr>) m"
  have c1: "ContainersOK ?m1" by (rule ContainersOK_map_entry[OF ok]) simp
  show ?thesis unfolding InsertTagIntoNodeArray_def Let_def
    using Some ok c1 ContainersOK_MarkNodeConflict[OF ok]
    by simp
qed

lemma InsertTagIntoNodeArray_has_key:
  "F \<in> fst ` set (InsertTagIntoNodeArray env s F P src row e r a m)"
  using arg_cong[OF InsertTagIntoNodeArray_keys[of env s F P src row e r a m], of set]
  by (auto simp: map_of_eq_None_iff simp flip: set_map split: if_splits)

lemma ContainersOK_InsertSubTags:
  assumes "ContainersOK m"
    and "\<forall>s \<in> set segs. CHR ''.'' \<notin> set s"
    and "\<And>p. P = Some p \<Longrightarrow> p \<in> fst ` set m"
  shows "ContainersOK (InsertSubTags env row src r a P segs m)"
  using assms
proof (induction segs arbitrary: P m)
  case Nil
  then show ?case by simp
next
  case (Cons s rest)
  let ?m1 = "InsertTagIntoNodeArray env s (FullTagOf P s) P src row (rest = []) r a m"
  have c: "ContainersOK ?m1"
    using Cons.prems by (intro ContainersOK_InsertTagIntoNodeArray) auto
  have "ContainersOK (InsertSubTags env row src r a (Some (FullTagOf P s)) rest ?m1)"
    using Cons.prems(2) InsertTagIntoNodeArray_has_key[of "FullTagOf P s" env s P src row "rest = []" r a m]
    by (intro Cons.IH[OF c]) auto
  then show ?case by simp
qed

lemma ContainersOK_ApplyOp:
  assumes "ContainersOK (MessageTagNodeMap mgr)"
  shows "ContainersOK (MessageTagNodeMap (ApplyOp env mgr op))"
proof (cases op)
  case (OpAddTagTableRow row src r a)
  have "ContainersOK (InsertSubTags env row src r a None (SplitMessageTagFName (RowTag row)) (MessageTagNodeMap mgr))"
    using assms Split_no_dot by (intro ContainersOK_InsertSubTags) auto
  then show ?thesis using OpAddTagTableRow assms by (simp add: AddTagTableRow_map)
next
  case OpDestroyMessageTagTree
  then show ?thesis by (simp add: DestroyMessageTagTree_def ContainersOK_def)
next
  case OpReadNetIndex
  have "ContainersOK (AssignNetIndices 0 T (MessageTagNodeMap mgr))" for T
    by (rule ContainersOK_kept[OF assms StoreRel_AssignNetIndices])
       (simp_all flip: set_map add: AssignNetIndices_keys)
  then show ?thesis using OpReadNetIndex assms
    by (simp add: VerifyNetworkIndex_def ConstructNetIndex_other(5))
qed

lemma ContainersOK_RunOps:
  "ContainersOK (MessageTagNodeMap (RunOps env (InitialManager c iv) ops))"
proof (induction ops rule: rev_induct)
  case Nil
  then show ?case by (simp add: RunOps_def InitialManager_def ContainersOK_def)
next
  case (snoc op ops)
  then show ?case by (simp add: RunOps_snoc ContainersOK_ApplyOp)
qed

lemma AddTagTableRow_registers:
  assumes v: "IsValidMessageTagString mgr (RowTag row)"
  shows "RowTag row \<in> fst ` set (MessageTagNodeMap (AddTagTableRow env row src r a mgr))"
proof -
  obtain segs s where sp: "SplitMessageTagFName (RowTag row) = segs @ [s]"
    using Split_snoc by blast
  have F: "FullTagOf (WalkParent None segs) s = RowTag row"
    using WalkParent_Split[of "RowTag row"] by (simp add: sp WalkParent_snoc)
  show ?thesis
    using InsertTagIntoNodeArray_has_key[of "RowTag row" env s "WalkParent None segs" src row True r a
        "InsertImplicitTags env row src r a None segs (MessageTagNodeMap mgr)"] v
    by (simp add: AddTagTableRow_map sp InsertSubTags_snoc F)
qed

lemma RequestMessageTagParents_registered:
  assumes ok: "ContainersOK (MessageTagNodeMap mgr)"
    and t: "t \<in> fst ` set (MessageTagNodeMap mgr)"
  shows "MessageTags (RequestMessageTagParents env mgr t) = t # TagAncestors t"
proof -
  obtain n where n: "map_of (MessageTagNodeMap mgr) t = Some n"
    using t map_of_eq_None_iff[of "MessageTagNodeMap mgr" t] by auto
  then have "MessageTags (CompleteTagWithParents n) = [t]"
    "ParentTags (CompleteTagWithParents n) = TagAncestors t"
    using ok unfolding ContainersOK_def by simp_all
  then show ?thesis using n
    by (simp add: RequestMessageTagParents_def GetSingleTagContainer_def
        GetSingleTagContainerSteps_def GetSingleTagContainerOfNode_def)
qed

subsection \<open>Marking a conflict twice\<close>


lemma MarkAncestors_flagged:
  "map_of m a = Some n \<Longrightarrow> bDescendantHasConflict n \<Longrightarrow> MarkAncestorsOfNodeConflict (a # as) m = m"
  by simp






subsection \<open>What marking leaves alone\<close>

lemma core_map_entry:
  "(\<And>n. NodeCore (f n) = NodeCore n) \<Longrightarrow>
   map_option NodeCore (map_of (AList.map_entry k f m) x) = map_option NodeCore (map_of m x)"
  by (cases "map_of m k") (auto simp: map_of_map_entry')

lemma core_MarkChildren:
  "map_option NodeCore (map_of (MarkChildrenOfNodeConflict N m) x) = map_option NodeCore (map_of m x)"
  by (cases "map_of m x") (auto simp: map_of_MarkChildren NodeCore_def)

lemma core_MarkAncestors:
  "map_option NodeCore (map_of (MarkAncestorsOfNodeConflict as m) x) = map_option NodeCore (map_of m x)"
proof (induction as m rule: MarkAncestorsOfNodeConflict.induct)
  case (1 m)
  then show ?case by simp
next
  case (2 a as m)
  show ?case
  proof (cases "map_of m a")
    case None
    then show ?thesis by simp
  next
    case (Some n)
    show ?thesis
    proof (cases "bDescendantHasConflict n")
      case True
      then show ?thesis using Some by simp
    next
      case False
      have "map_option NodeCore (map_of (AList.map_entry a (\<lambda>n. n\<lparr>bDescendantHasConflict := True\<rparr>) m) x)
              = map_option NodeCore (map_of m x)"
        by (rule core_map_entry) (simp add: NodeCore_def)
      then show ?thesis using Some False 2[OF Some False] by simp
    qed
  qed
qed

lemma core_MarkNodeConflict:
  "map_option NodeCore (map_of (MarkNodeConflict N m) x) = map_option NodeCore (map_of m x)"
proof (cases "map_of m N")
  case None
  then show ?thesis by (simp add: MarkNodeConflict_def)
next
  case (Some n)
  have "map_option NodeCore (map_of (AList.map_entry N (\<lambda>n. n\<lparr>bNodeHasConflict := True\<rparr>) m) x)
          = map_option NodeCore (map_of m x)"
    by (rule core_map_entry) (simp add: NodeCore_def)
  then show ?thesis using Some
    by (simp add: MarkNodeConflict_def core_MarkChildren core_MarkAncestors)
qed

lemma RestrictionConflict_core:
  "RestrictionConflict m P r =
     (case P of None \<Rightarrow> False
      | Some p \<Rightarrow> (case map_option NodeCore (map_of m p) of None \<Rightarrow> False
                   | Some c \<Rightarrow> bIsRestrictedTag c \<and> \<not> bAllowNonRestrictedChildren c \<and> \<not> r))"
  by (auto simp: RestrictionConflict_def NodeCore_def split: option.splits)

lemma InsertTagIntoNodeArray_other:
  assumes "k \<noteq> F"
  shows "map_option NodeCore (map_of (InsertTagIntoNodeArray env s F P src row e r a m) k)
       = map_option NodeCore (map_of m k)"
proof -
  have ap: "([F \<mapsto> v] ++ map_of m) k = map_of m k" for v
    using assms by (simp add: map_add_def split: option.splits)
  have me: "map_of (AList.map_entry F f m) k = map_of m k" for f
    using assms by (simp add: map_of_map_entry')
  show ?thesis
    unfolding InsertTagIntoNodeArray_def Let_def
    by (simp add: core_MarkNodeConflict ap me split: option.splits)
qed

lemma RestrictionConflict_after_insert:
  assumes "P \<noteq> Some F"
  shows "RestrictionConflict (InsertTagIntoNodeArray env s F P src row e r a m) P r'
       = RestrictionConflict m P r'"
proof (cases P)
  case None
  then show ?thesis by (simp add: RestrictionConflict_def)
next
  case (Some p)
  then have "p \<noteq> F" using assms by simp
  then show ?thesis using Some
    by (simp add: RestrictionConflict_core InsertTagIntoNodeArray_other)
qed

lemma RestrictionConflict_after_mark:
  "RestrictionConflict (MarkNodeConflict N m) P r = RestrictionConflict m P r"
  by (cases P) (simp_all add: RestrictionConflict_core core_MarkNodeConflict)














subsection \<open>Ancestors of tag names\<close>






subsection \<open>Prefix closed key sets\<close>


lemma InsertTagIntoNodeArray_key_set:
  "fst ` set (InsertTagIntoNodeArray env s F P src row e r a m) = insert F (fst ` set m)"
  using arg_cong[OF InsertTagIntoNodeArray_keys[of env s F P src row e r a m], of set]
  by (auto simp: map_of_eq_None_iff simp flip: set_map split: if_splits)

subsection \<open>Conflict flags closed upwards\<close>










subsection \<open>Trees in order\<close>






subsection \<open>No operation but the reconstruction clears a conflict flag\<close>




lemma RunOps_append: "RunOps env mgr (xs @ ys) = RunOps env (RunOps env mgr xs) ys"
  by (simp add: RunOps_def)



subsection \<open>The descendants at the detection of a conflict\<close>






subsection \<open>Submitting a declared row again\<close>












text \<open>
  The scenario of the specification: \<open>A.B\<close> restricted without non-restricted children
  from one source, then \<open>A.B.C\<close> not restricted from another.
\<close>

lemma restricted_parent_scenario:
  "map (\<lambda>(k, n). (k, bNodeHasConflict n, bDescendantHasConflict n, bAncestorHasConflict n))
     (MessageTagNodeMap
        (RunOps SampleEnv (InitialManager [] [])
           [OpAddTagTableRow (SampleRow ''A.B'') ''S1'' True False,
            OpAddTagTableRow (SampleRow ''A.B.C'') ''S2'' False True]))
   = [(''A'', False, True, False), (''A.B'', False, True, False), (''A.B.C'', True, False, False)]"
  by (simp add: eval_defs)

section \<open>The lookups\<close>

text \<open>
  C5. A lookup (\<open>FindTagNode\<close>, \<open>GetSingleTagContainer\<close>) of a tag that the map does
  not hold, under its own name and under the name the redirector gives it where the
  redirector is consulted, returns the null pointer \<open>None\<close>. The first call of a lookup
  is the plain find of the requested tag. The redirector is handed the tag only after
  that find has missed (and only in an editor build, with \<open>GIsEditor\<close> set and a valid
  tag: then always), and it is followed by exactly one more find, of the redirected
  tag, whose result is the result of the lookup.
\<close>

theorem lookup_miss_and_redirect:
  "(map_of (MessageTagNodeMap mgr) t = None
      \<and> (WITH_EDITOR env \<and> GIsEditor env \<and> TagIsValid env t
            \<longrightarrow> map_of (MessageTagNodeMap mgr) (RedirectSingleMessageTag env t) = None)
      \<longrightarrow> FindTagNode env mgr t = None \<and> GetSingleTagContainer env mgr t = None)
   \<and> (\<exists>rest. snd (FindTagNodeSteps env mgr t) = MapFind t # rest)
   \<and> (\<exists>rest. snd (GetSingleTagContainerSteps env mgr t) = MapFind t # rest)
   \<and> (\<forall>x. Redirect x \<in> set (snd (FindTagNodeSteps env mgr t))
          \<or> Redirect x \<in> set (snd (GetSingleTagContainerSteps env mgr t))
          \<longrightarrow> x = t \<and> map_of (MessageTagNodeMap mgr) t = None)
   \<and> (snd (FindTagNodeSteps env mgr t) = [MapFind t]
        \<or> snd (FindTagNodeSteps env mgr t)
             = [MapFind t, Redirect t, MapFind (RedirectSingleMessageTag env t)])
   \<and> snd (GetSingleTagContainerSteps env mgr t) = snd (FindTagNodeSteps env mgr t)
   \<and> (map_of (MessageTagNodeMap mgr) t = None \<and> WITH_EDITOR env \<and> GIsEditor env \<and> TagIsValid env t
        \<longrightarrow> snd (FindTagNodeSteps env mgr t)
              = [MapFind t, Redirect t, MapFind (RedirectSingleMessageTag env t)]
            \<and> FindTagNode env mgr t = map_of (MessageTagNodeMap mgr) (RedirectSingleMessageTag env t))"
  by (auto simp: FindTagNodeSteps_def GetSingleTagContainerSteps_def FindTagNode_def
      GetSingleTagContainer_def Let_def split: option.splits)

theorem lookup_miss_and_redirect_witness:
  "FindTagNode SampleEnv (InitialManager [] []) ''A.B'' = None
   \<and> GetSingleTagContainer SampleEnv (InitialManager [] []) ''A.B'' = None
   \<and> snd (FindTagNodeSteps SampleEnv (InitialManager [] []) ''A.B'')
       = [MapFind ''A.B'', Redirect ''A.B'', MapFind ''A.B'']"
  using lookup_miss_and_redirect [of "InitialManager [] []" "''A.B''" SampleEnv]
  by (simp add: SampleEnv_def InitialManager_def NAME_None_def)

section \<open>The network index\<close>

text \<open>
  C4. Each of the five cached-index accessors (index table, bit width, first bit
  segment, invalid index, table hash) leaves the manager that \<open>VerifyNetworkIndex\<close>
  leaves and returns the field of that manager; \<open>VerifyNetworkIndex\<close> rebuilds an
  invalidated index and leaves a valid one alone, so after the read the index is valid.
  Adding a well-formed row sets the invalidated flag and changes neither the cached
  table, hash, widths and invalid index nor the index stored in an existing node (a
  malformed row changes nothing); destroying the tree sets the flag as well.
\<close>

theorem index_reads_rebuild_mutations_invalidate:
  "snd (GetNetworkMessageTagNodeIndex env mgr) = VerifyNetworkIndex env mgr
   \<and> snd (GetNetIndexTrueBitNum env mgr) = VerifyNetworkIndex env mgr
   \<and> snd (GetNetIndexFirstBitSegment env mgr) = VerifyNetworkIndex env mgr
   \<and> snd (GetInvalidTagNetIndex env mgr) = VerifyNetworkIndex env mgr
   \<and> snd (GetNetworkMessageTagNodeIndexHash env mgr) = VerifyNetworkIndex env mgr
   \<and> fst (GetNetworkMessageTagNodeIndex env mgr) = NetworkMessageTagNodeIndex (VerifyNetworkIndex env mgr)
   \<and> fst (GetNetIndexTrueBitNum env mgr) = NetIndexTrueBitNum (VerifyNetworkIndex env mgr)
   \<and> fst (GetNetIndexFirstBitSegment env mgr) = NetIndexFirstBitSegment (VerifyNetworkIndex env mgr)
   \<and> fst (GetInvalidTagNetIndex env mgr) = InvalidTagNetIndex (VerifyNetworkIndex env mgr)
   \<and> fst (GetNetworkMessageTagNodeIndexHash env mgr) = NetworkMessageTagNodeIndexHash (VerifyNetworkIndex env mgr)
   \<and> VerifyNetworkIndex env mgr = (if bNetworkIndexInvalidated mgr then ConstructNetIndex env mgr else mgr)
   \<and> \<not> bNetworkIndexInvalidated (VerifyNetworkIndex env mgr)
   \<and> (IsValidMessageTagString mgr (RowTag row)
        \<longrightarrow> bNetworkIndexInvalidated (AddTagTableRow env row src r a mgr))
   \<and> (\<not> IsValidMessageTagString mgr (RowTag row) \<longrightarrow> AddTagTableRow env row src r a mgr = mgr)
   \<and> NetworkMessageTagNodeIndex (AddTagTableRow env row src r a mgr) = NetworkMessageTagNodeIndex mgr
   \<and> NetworkMessageTagNodeIndexHash (AddTagTableRow env row src r a mgr) = NetworkMessageTagNodeIndexHash mgr
   \<and> NetIndexTrueBitNum (AddTagTableRow env row src r a mgr) = NetIndexTrueBitNum mgr
   \<and> NetIndexFirstBitSegment (AddTagTableRow env row src r a mgr) = NetIndexFirstBitSegment mgr
   \<and> InvalidTagNetIndex (AddTagTableRow env row src r a mgr) = InvalidTagNetIndex mgr
   \<and> (\<forall>k n. map_of (MessageTagNodeMap mgr) k = Some n
        \<longrightarrow> (\<exists>n'. map_of (MessageTagNodeMap (AddTagTableRow env row src r a mgr)) k = Some n'
                   \<and> NetIndex n' = NetIndex n))
   \<and> bNetworkIndexInvalidated (DestroyMessageTagTree mgr)"
proof -
  have acc: "snd (GetNetworkMessageTagNodeIndex env mgr) = VerifyNetworkIndex env mgr"
    "snd (GetNetIndexTrueBitNum env mgr) = VerifyNetworkIndex env mgr"
    "snd (GetNetIndexFirstBitSegment env mgr) = VerifyNetworkIndex env mgr"
    "snd (GetInvalidTagNetIndex env mgr) = VerifyNetworkIndex env mgr"
    "snd (GetNetworkMessageTagNodeIndexHash env mgr) = VerifyNetworkIndex env mgr"
    "fst (GetNetworkMessageTagNodeIndex env mgr) = NetworkMessageTagNodeIndex (VerifyNetworkIndex env mgr)"
    "fst (GetNetIndexTrueBitNum env mgr) = NetIndexTrueBitNum (VerifyNetworkIndex env mgr)"
    "fst (GetNetIndexFirstBitSegment env mgr) = NetIndexFirstBitSegment (VerifyNetworkIndex env mgr)"
    "fst (GetInvalidTagNetIndex env mgr) = InvalidTagNetIndex (VerifyNetworkIndex env mgr)"
    "fst (GetNetworkMessageTagNodeIndexHash env mgr) = NetworkMessageTagNodeIndexHash (VerifyNetworkIndex env mgr)"
    by (simp_all add: GetNetworkMessageTagNodeIndex_def GetNetIndexTrueBitNum_def
        GetNetIndexFirstBitSegment_def GetInvalidTagNetIndex_def
        GetNetworkMessageTagNodeIndexHash_def Let_def)
  have ver: "VerifyNetworkIndex env mgr = (if bNetworkIndexInvalidated mgr then ConstructNetIndex env mgr else mgr)"
    "\<not> bNetworkIndexInvalidated (VerifyNetworkIndex env mgr)"
    by (simp_all add: VerifyNetworkIndex_def ConstructNetIndex_other(2))
  have mut: "IsValidMessageTagString mgr (RowTag row)
        \<longrightarrow> bNetworkIndexInvalidated (AddTagTableRow env row src r a mgr)"
    "\<not> IsValidMessageTagString mgr (RowTag row) \<longrightarrow> AddTagTableRow env row src r a mgr = mgr"
    "bNetworkIndexInvalidated (DestroyMessageTagTree mgr)"
    by (simp_all add: AddTagTableRow_def InvalidateNetworkIndex_def DestroyMessageTagTree_def)
  have keep: "\<forall>k n. map_of (MessageTagNodeMap mgr) k = Some n
        \<longrightarrow> (\<exists>n'. map_of (MessageTagNodeMap (AddTagTableRow env row src r a mgr)) k = Some n'
                   \<and> NetIndex n' = NetIndex n)"
    using AddTagTableRow_keeps_NetIndex by blast
  show ?thesis
    using acc ver mut keep AddTagTableRow_fields(1-5)[of env row src r a mgr] by simp
qed

theorem index_reads_rebuild_mutations_invalidate_witness:
  "\<not> bNetworkIndexInvalidated (snd (GetNetIndexTrueBitNum SampleEnv SampleManager))
   \<and> bNetworkIndexInvalidated
        (AddTagTableRow SampleEnv (SampleRow ''Weapon.Axe'') ''S1'' False True
           (VerifyNetworkIndex SampleEnv SampleManager))
   \<and> AddTagTableRow SampleEnv (SampleRow ''Weapon..Axe'') ''S1'' False True SampleManager
       = SampleManager
   \<and> (\<exists>n'. map_of (MessageTagNodeMap
                 (AddTagTableRow SampleEnv (SampleRow ''Weapon.Axe'') ''S1'' False True
                    (VerifyNetworkIndex SampleEnv SampleManager))) ''Weapon.Gun'' = Some n'
          \<and> NetIndex n' = 2)"
proof -
  let ?v = "VerifyNetworkIndex SampleEnv SampleManager"
  let ?axe = "SampleRow ''Weapon.Axe''"
  let ?bad = "SampleRow ''Weapon..Axe''"
  have valid: "IsValidMessageTagString ?v (RowTag ?axe)"
    by (simp add: SampleManager_def eval_defs)
  have invalid: "\<not> IsValidMessageTagString SampleManager (RowTag ?bad)"
    by (simp add: SampleManager_def eval_defs)
  obtain n where n: "map_of (MessageTagNodeMap ?v) ''Weapon.Gun'' = Some n" "NetIndex n = 2"
    by (simp add: SampleManager_def eval_defs)
  note T1 = index_reads_rebuild_mutations_invalidate
            [of SampleEnv SampleManager ?bad "''S1''" False True]
  note T2 = index_reads_rebuild_mutations_invalidate
            [of SampleEnv ?v ?axe "''S1''" False True]
  from T1 have a1: "snd (GetNetIndexTrueBitNum SampleEnv SampleManager) = ?v"
    by (elim conjE)
  from T1 have a2: "\<not> bNetworkIndexInvalidated ?v"
    by (elim conjE)
  from T2 have a3: "IsValidMessageTagString ?v (RowTag ?axe)
      \<longrightarrow> bNetworkIndexInvalidated (AddTagTableRow SampleEnv ?axe ''S1'' False True ?v)"
    by (elim conjE)
  from T1 have a4: "\<not> IsValidMessageTagString SampleManager (RowTag ?bad)
      \<longrightarrow> AddTagTableRow SampleEnv ?bad ''S1'' False True SampleManager = SampleManager"
    by (elim conjE)
  from T2 have a5: "\<forall>k n. map_of (MessageTagNodeMap ?v) k = Some n
        \<longrightarrow> (\<exists>n'. map_of (MessageTagNodeMap (AddTagTableRow SampleEnv ?axe ''S1'' False True ?v)) k = Some n'
                   \<and> NetIndex n' = NetIndex n)"
    by (elim conjE)
  have w1: "\<not> bNetworkIndexInvalidated (snd (GetNetIndexTrueBitNum SampleEnv SampleManager))"
    unfolding a1 by (rule a2)
  have w2: "bNetworkIndexInvalidated (AddTagTableRow SampleEnv ?axe ''S1'' False True ?v)"
    by (rule mp[OF a3 valid])
  have w3: "AddTagTableRow SampleEnv ?bad ''S1'' False True SampleManager = SampleManager"
    by (rule mp[OF a4 invalid])
  have w4: "\<exists>n'. map_of (MessageTagNodeMap (AddTagTableRow SampleEnv ?axe ''S1'' False True ?v))
                 ''Weapon.Gun'' = Some n' \<and> NetIndex n' = 2"
    using a5[rule_format, OF n(1)] n(2) by simp
  show ?thesis using w1 w2 w3 w4 by (intro conjI)
qed

text \<open>
  C2. After a rebuild over \<open>N\<close> registered tags the invalid index is \<open>N\<close>: the table has
  the \<open>N\<close> positions \<open>0 .. N - 1\<close>, \<open>GetTagNameFromNetIndex\<close> returns a tag exactly for
  these, and so it returns no tag for the invalid index. The same holds for what the
  accessors return in any registry, since they rebuild an invalidated index first.
\<close>

theorem sentinel_after_rebuild:
  "InvalidTagNetIndex (ConstructNetIndex env mgr) = length (MessageTagNodeMap mgr)
   \<and> length (MessageTagNodeMap (ConstructNetIndex env mgr)) = length (MessageTagNodeMap mgr)
   \<and> length (NetworkMessageTagNodeIndex (ConstructNetIndex env mgr)) = length (MessageTagNodeMap mgr)
   \<and> fst (GetInvalidTagNetIndex env (ConstructNetIndex env mgr)) = length (MessageTagNodeMap mgr)
   \<and> fst (GetTagNameFromNetIndex env (ConstructNetIndex env mgr)
            (fst (GetInvalidTagNetIndex env (ConstructNetIndex env mgr)))) = None
   \<and> (\<forall>i. (fst (GetTagNameFromNetIndex env (ConstructNetIndex env mgr) i) = None)
            = (length (MessageTagNodeMap mgr) \<le> i))
   \<and> fst (GetInvalidTagNetIndex env (RunOps env (InitialManager c iv) ops))
       = length (MessageTagNodeMap (RunOps env (InitialManager c iv) ops))
   \<and> fst (GetTagNameFromNetIndex env (RunOps env (InitialManager c iv) ops)
            (fst (GetInvalidTagNetIndex env (RunOps env (InitialManager c iv) ops)))) = None"
proof -
  let ?m = "ConstructNetIndex env mgr"
  let ?h = "RunOps env (InitialManager c iv) ops"
  have v: "VerifyNetworkIndex env ?m = ?m"
    by (simp add: VerifyNetworkIndex_def ConstructNetIndex_other(2))
  have len: "length (MessageTagNodeMap ?m) = length (MessageTagNodeMap mgr)"
    using arg_cong[OF AssignNetIndices_keys, of length] by (simp add: ConstructNetIndex_other(5))
  have tab: "length (NetworkMessageTagNodeIndex ?m) = length (MessageTagNodeMap mgr)"
    by (rule ConstructNetIndex_table_length)
  have get: "fst (GetTagNameFromNetIndex env ?m i) = None \<longleftrightarrow> length (MessageTagNodeMap mgr) \<le> i" for i
    by (simp add: GetTagNameFromNetIndex_def Let_def v ConstructNetIndex_table_length)
  have inv: "fst (GetInvalidTagNetIndex env ?m) = length (MessageTagNodeMap mgr)"
    by (simp add: GetInvalidTagNetIndex_def Let_def v ConstructNetIndex_invalid)
  have hinv: "fst (GetInvalidTagNetIndex env ?h) = length (MessageTagNodeMap ?h)"
    by (simp add: GetInvalidTagNetIndex_def Let_def RunOps_Verify ConstructNetIndex_invalid)
  have hget: "fst (GetTagNameFromNetIndex env ?h (fst (GetInvalidTagNetIndex env ?h))) = None"
    unfolding hinv
    by (simp add: GetTagNameFromNetIndex_def Let_def RunOps_Verify ConstructNetIndex_table_length)
  show ?thesis
    using len tab get inv hinv hget by (simp add: ConstructNetIndex_invalid)
qed


text \<open>
  C1. Two registries with the same configured commonly replicated tags, whatever their
  histories (the order of the rows, their sources and flags, reads of the index and
  re-additions that invalidate it in between), that hold the same set of tags read the
  same index table, the same table hash, widths and invalid index, the same index for
  every tag and the same tag for every index.
\<close>

theorem net_index_determined_by_tag_set:
  fixes env common iv1 iv2 ops1 ops2
  defines "A \<equiv> RunOps env (InitialManager common iv1) ops1"
    and "B \<equiv> RunOps env (InitialManager common iv2) ops2"
  assumes same: "fst ` set (MessageTagNodeMap A) = fst ` set (MessageTagNodeMap B)"
  shows "fst (GetNetworkMessageTagNodeIndex env A) = fst (GetNetworkMessageTagNodeIndex env B)
       \<and> fst (GetNetworkMessageTagNodeIndexHash env A) = fst (GetNetworkMessageTagNodeIndexHash env B)
       \<and> fst (GetNetIndexTrueBitNum env A) = fst (GetNetIndexTrueBitNum env B)
       \<and> fst (GetNetIndexFirstBitSegment env A) = fst (GetNetIndexFirstBitSegment env B)
       \<and> fst (GetInvalidTagNetIndex env A) = fst (GetInvalidTagNetIndex env B)
       \<and> (\<forall>t. fst (GetNetIndexFromTag env A t) = fst (GetNetIndexFromTag env B t))
       \<and> (\<forall>i. fst (GetTagNameFromNetIndex env A i) = fst (GetTagNameFromNetIndex env B i))"
proof -
  have dA: "distinct (map fst (MessageTagNodeMap A))" unfolding A_def by (rule RunOps_distinct)
  have dB: "distinct (map fst (MessageTagNodeMap B))" unfolding B_def by (rule RunOps_distinct)
  have cfg: "CommonlyReplicatedTags A = CommonlyReplicatedTags B"
    unfolding A_def B_def by (simp add: RunOps_config)
  have vA: "VerifyNetworkIndex env A = ConstructNetIndex env A" unfolding A_def by (rule RunOps_Verify)
  have vB: "VerifyNetworkIndex env B = ConstructNetIndex env B" unfolding B_def by (rule RunOps_Verify)
  have T: "NetworkMessageTagNodeIndex (ConstructNetIndex env A) = NetworkMessageTagNodeIndex (ConstructNetIndex env B)"
    by (rule same_tags_table[OF dA dB same cfg])
  have len: "length (MessageTagNodeMap A) = length (MessageTagNodeMap B)"
    by (rule same_tags_length[OF dA dB same])
  have p1: "fst (GetNetworkMessageTagNodeIndex env A) = fst (GetNetworkMessageTagNodeIndex env B)"
    by (simp add: GetNetworkMessageTagNodeIndex_def Let_def vA vB T)
  have p2: "fst (GetNetworkMessageTagNodeIndexHash env A) = fst (GetNetworkMessageTagNodeIndexHash env B)"
    by (simp add: GetNetworkMessageTagNodeIndexHash_def Let_def vA vB ConstructNetIndex_hash T len)
  have p3: "fst (GetNetIndexTrueBitNum env A) = fst (GetNetIndexTrueBitNum env B)"
    by (simp add: GetNetIndexTrueBitNum_def Let_def vA vB ConstructNetIndex_bits len)
  have p4: "fst (GetNetIndexFirstBitSegment env A) = fst (GetNetIndexFirstBitSegment env B)"
    by (simp add: GetNetIndexFirstBitSegment_def Let_def vA vB ConstructNetIndex_other(1)
        ConstructNetIndex_bits len)
  have p5: "fst (GetInvalidTagNetIndex env A) = fst (GetInvalidTagNetIndex env B)"
    by (simp add: GetInvalidTagNetIndex_def Let_def vA vB ConstructNetIndex_invalid len)
  have p6: "fst (GetNetIndexFromTag env A t) = fst (GetNetIndexFromTag env B t)" for t
    unfolding GetNetIndexFromTag_Verify[of env A] GetNetIndexFromTag_Verify[of env B] vA vB
    unfolding GetNetIndexFromTag_rebuilt[OF dA] GetNetIndexFromTag_rebuilt[OF dB]
    by (simp only: T len same)
  have p7: "fst (GetTagNameFromNetIndex env A i) = fst (GetTagNameFromNetIndex env B i)" for i
    unfolding GetTagNameFromNetIndex_Verify vA vB T by (rule refl)
  show ?thesis using p1 p2 p3 p4 p5 p6 p7 by blast
qed

lemma ReorderedManager_keys:
  "map fst (MessageTagNodeMap ReorderedManager)
     = [''Weapon'', ''Weapon.Sword'', ''Weapon.Gun'', ''Weapon.Gun.Rifle'']"
  by (simp add: ReorderedManager_def eval_defs)

theorem net_index_determined_by_tag_set_witness:
  "fst ` set (MessageTagNodeMap SampleManager) = fst ` set (MessageTagNodeMap ReorderedManager)
   \<and> map fst (MessageTagNodeMap SampleManager) \<noteq> map fst (MessageTagNodeMap ReorderedManager)
   \<and> fst (GetNetworkMessageTagNodeIndex SampleEnv ReorderedManager)
       = [''Weapon.Sword'', ''Weapon'', ''Weapon.Gun'', ''Weapon.Gun.Rifle'']
   \<and> fst (GetNetIndexFromTag SampleEnv ReorderedManager ''Weapon.Gun'')
       = fst (GetNetIndexFromTag SampleEnv SampleManager ''Weapon.Gun'')
   \<and> fst (GetNetworkMessageTagNodeIndexHash SampleEnv ReorderedManager)
       = fst (GetNetworkMessageTagNodeIndexHash SampleEnv SampleManager)"
proof -
  have same: "fst ` set (MessageTagNodeMap SampleManager) = fst ` set (MessageTagNodeMap ReorderedManager)"
    using arg_cong[OF SampleManager_map_keys, of set] arg_cong[OF ReorderedManager_keys, of set]
    by (simp only: set_map) auto
  have differ: "map fst (MessageTagNodeMap SampleManager) \<noteq> map fst (MessageTagNodeMap ReorderedManager)"
    by (simp add: SampleManager_map_keys ReorderedManager_keys)
  note T = net_index_determined_by_tag_set
      [of SampleEnv "[''Weapon.Sword'']" "'' ,''"
          "[OpAddTagTableRow (SampleRow ''Weapon.Gun'') ''S1'' False True,
            OpAddTagTableRow (SampleRow ''Weapon.Gun.Rifle'') ''S1'' False True,
            OpAddTagTableRow (SampleRow ''Weapon.Sword'') ''S1'' False True]"
          "''#''"
          "[OpAddTagTableRow (SampleRow ''Weapon.Sword'') ''S2'' True False,
            OpReadNetIndex,
            OpAddTagTableRow (SampleRow ''Weapon.Gun.Rifle'') ''S1'' False True,
            OpAddTagTableRow (SampleRow ''Weapon.Gun'') ''S2'' False True,
            OpReadNetIndex,
            OpAddTagTableRow (SampleRow ''Weapon.Sword'') ''S2'' True False,
            OpReadNetIndex]",
       folded SampleManager_def ReorderedManager_def, OF same]
  from T have t1: "fst (GetNetworkMessageTagNodeIndex SampleEnv SampleManager)
                 = fst (GetNetworkMessageTagNodeIndex SampleEnv ReorderedManager)"
    by (elim conjE)
  from T have t2: "fst (GetNetworkMessageTagNodeIndexHash SampleEnv SampleManager)
                 = fst (GetNetworkMessageTagNodeIndexHash SampleEnv ReorderedManager)"
    by (elim conjE)
  from T have t3: "\<forall>t. fst (GetNetIndexFromTag SampleEnv SampleManager t)
                     = fst (GetNetIndexFromTag SampleEnv ReorderedManager t)"
    by (elim conjE)
  have v: "fst (GetNetworkMessageTagNodeIndex SampleEnv SampleManager)
             = [''Weapon.Sword'', ''Weapon'', ''Weapon.Gun'', ''Weapon.Gun.Rifle'']"
    by (simp add: GetNetworkMessageTagNodeIndex_def Let_def SampleManager_rebuilt(1))
  show ?thesis
    using same differ t1[symmetric] t2[symmetric] t3[rule_format, of "''Weapon.Gun''", symmetric] v
    by simp
qed




section \<open>The tag tree\<close>

text \<open>
  C6. In a registry reached by any history, the parents query of a registered tag
  returns the tag itself followed by its strict ancestors, most specific first. The
  strict ancestors of a tag name are exactly the names \<open>p\<close> with \<open>t = p.rest\<close>, listed
  by decreasing length; those of \<open>A.B.C\<close> are \<open>A.B\<close> and \<open>A\<close>. After a row has added
  \<open>A.B.C\<close>, the query for it returns \<open>A.B.C\<close>, \<open>A.B\<close>, \<open>A\<close> in that order.
\<close>

theorem parents_of_registered_tag:
  fixes env c iv ops
  defines "mgr \<equiv> RunOps env (InitialManager c iv) ops"
  shows "(t \<in> fst ` set (MessageTagNodeMap mgr)
            \<longrightarrow> MessageTags (RequestMessageTagParents env mgr t) = t # TagAncestors t)
       \<and> set (TagAncestors t) = {p. \<exists>rest. t = p @ ''.'' @ rest}
       \<and> sorted_wrt (\<lambda>x y. length y < length x) (TagAncestors t)
       \<and> TagAncestors ''A.B.C'' = [''A.B'', ''A'']
       \<and> (RowTag row = ''A.B.C'' \<and> IsValidMessageTagString mgr ''A.B.C''
            \<longrightarrow> MessageTags (RequestMessageTagParents env (AddTagTableRow env row src r a mgr) ''A.B.C'')
                = [''A.B.C'', ''A.B'', ''A''])"
proof -
  have p1: "t \<in> fst ` set (MessageTagNodeMap mgr)
            \<longrightarrow> MessageTags (RequestMessageTagParents env mgr t) = t # TagAncestors t"
    unfolding mgr_def using RequestMessageTagParents_registered[OF ContainersOK_RunOps] by blast
  have p2: "set (TagAncestors t) = {p. \<exists>rest. t = p @ ''.'' @ rest}"
    by (simp add: TagAncestors_set)
  have p3: "sorted_wrt (\<lambda>x y. length y < length x) (TagAncestors t)"
    unfolding TagAncestors_def by (rule DotPrefixes_decreasing)
  have p4: "TagAncestors ''A.B.C'' = [''A.B'', ''A'']"
    by (simp add: TagAncestors_def)
  have p5: "MessageTags (RequestMessageTagParents env (AddTagTableRow env row src r a mgr) ''A.B.C'')
                = [''A.B.C'', ''A.B'', ''A'']"
    if row: "RowTag row = ''A.B.C''" and v: "IsValidMessageTagString mgr ''A.B.C''"
  proof -
    have run: "AddTagTableRow env row src r a mgr
                 = RunOps env (InitialManager c iv) (ops @ [OpAddTagTableRow row src r a])"
      unfolding mgr_def by (simp add: RunOps_snoc)
    have ok: "ContainersOK (MessageTagNodeMap (AddTagTableRow env row src r a mgr))"
      unfolding run by (rule ContainersOK_RunOps)
    have reg: "''A.B.C'' \<in> fst ` set (MessageTagNodeMap (AddTagTableRow env row src r a mgr))"
      using AddTagTableRow_registers[of mgr row env src r a] v row by simp
    show ?thesis
      using RequestMessageTagParents_registered[OF ok reg, of env] by (simp only: p4)
  qed
  show ?thesis using p1 p2 p3 p4 p5 by blast
qed

theorem parents_of_registered_tag_witness:
  "MessageTags (RequestMessageTagParents SampleEnv SampleManager ''Weapon.Gun.Rifle'')
     = [''Weapon.Gun.Rifle'', ''Weapon.Gun'', ''Weapon'']
   \<and> MessageTags (RequestMessageTagParents SampleEnv
        (AddTagTableRow SampleEnv (SampleRow ''A.B.C'') ''S1'' False True SampleManager) ''A.B.C'')
     = [''A.B.C'', ''A.B'', ''A'']"
proof -
  let ?ops = "[OpAddTagTableRow (SampleRow ''Weapon.Gun'') ''S1'' False True,
               OpAddTagTableRow (SampleRow ''Weapon.Gun.Rifle'') ''S1'' False True,
               OpAddTagTableRow (SampleRow ''Weapon.Sword'') ''S1'' False True]"
  note T = parents_of_registered_tag
    [where env = SampleEnv and c = "[''Weapon.Sword'']" and iv = "'' ,''" and ops = ?ops
       and t = "''Weapon.Gun.Rifle''" and row = "SampleRow ''A.B.C''" and src = "''S1''"
       and r = False and a = True, folded SampleManager_def]
  have reg: "''Weapon.Gun.Rifle'' \<in> fst ` set (MessageTagNodeMap SampleManager)"
    using arg_cong[OF SampleManager_map_keys, of set] by (simp only: set_map) simp
  have anc: "TagAncestors ''Weapon.Gun.Rifle'' = [''Weapon.Gun'', ''Weapon'']"
    by (simp add: TagAncestors_def)
  have row: "RowTag (SampleRow ''A.B.C'') = ''A.B.C''" by (simp add: SampleRow_def)
  have valid: "IsValidMessageTagString SampleManager ''A.B.C''"
    by (simp add: SampleManager_def eval_defs)
  from T have t1: "''Weapon.Gun.Rifle'' \<in> fst ` set (MessageTagNodeMap SampleManager)
            \<longrightarrow> MessageTags (RequestMessageTagParents SampleEnv SampleManager ''Weapon.Gun.Rifle'')
                = ''Weapon.Gun.Rifle'' # TagAncestors ''Weapon.Gun.Rifle''"
    by (elim conjE)
  from T have t5: "RowTag (SampleRow ''A.B.C'') = ''A.B.C'' \<and> IsValidMessageTagString SampleManager ''A.B.C''
            \<longrightarrow> MessageTags (RequestMessageTagParents SampleEnv
                   (AddTagTableRow SampleEnv (SampleRow ''A.B.C'') ''S1'' False True SampleManager) ''A.B.C'')
                = [''A.B.C'', ''A.B'', ''A'']"
    by (elim conjE)
  show ?thesis
    using mp[OF t1 reg] mp[OF t5 conjI[OF row valid]] by (simp only: anc)
qed






section \<open>Properties of the node accessors\<close>

text \<open>
  C9. In a build without editor-only data (\<open>WITH_EDITORONLY_DATA\<close> off) the predicates
  \<open>IsExplicitTag\<close>, \<open>IsRestrictedMessageTag\<close> and \<open>GetAllowNonRestrictedChildren\<close> are true
  of every node, whatever its fields hold, and \<open>GetComment\<close> is the empty string; so two
  nodes cannot be told apart by them.
\<close>

theorem accessors_without_editoronly_data:
  "IsExplicitTag (env\<lparr>WITH_EDITORONLY_DATA := False\<rparr>) n
   \<and> IsRestrictedMessageTag (env\<lparr>WITH_EDITORONLY_DATA := False\<rparr>) n
   \<and> GetAllowNonRestrictedChildren (env\<lparr>WITH_EDITORONLY_DATA := False\<rparr>) n
   \<and> GetComment (env\<lparr>WITH_EDITORONLY_DATA := False\<rparr>) n = []"
  by (simp add: IsExplicitTag_def IsRestrictedMessageTag_def
      GetAllowNonRestrictedChildren_def GetComment_def)

end
